theory Spec2Isabelle
  imports Main
begin

section \<open>JavaScript values used by the OTP code\<close>

text \<open>
  Strings are lists of 8-bit characters, read as the code points 0 to 255 (Latin-1); the
  codes, salts and hashes the handlers see are ASCII. Timestamps are milliseconds since the epoch, as \<open>Date.now()\<close>
  and \<open>new Date(...)\<close> compared with \<open>>\<close> are. JavaScript numbers that are
  integers here (attempt counters, random draws) are \<open>int\<close>.
\<close>

type_synonym timestamp = int

text \<open>\<open>String(n)\<close> for an integer \<open>n\<close>: the decimal digits, most significant first,
  with a minus sign for a negative number and no padding.\<close>

definition digit_char :: "nat \<Rightarrow> char" where
  "digit_char d =
     (if d = 0 then CHR ''0'' else if d = 1 then CHR ''1'' else if d = 2 then CHR ''2''
      else if d = 3 then CHR ''3'' else if d = 4 then CHR ''4'' else if d = 5 then CHR ''5''
      else if d = 6 then CHR ''6'' else if d = 7 then CHR ''7'' else if d = 8 then CHR ''8''
      else CHR ''9'')"

fun nat_digits :: "nat \<Rightarrow> string" where
  "nat_digits n = (if n < 10 then [digit_char n] else nat_digits (n div 10) @ [digit_char (n mod 10)])"

declare nat_digits.simps [simp del]

definition js_String :: "int \<Rightarrow> string" where
  "js_String n = (if n < 0 then CHR ''-'' # nat_digits (nat (- n)) else nat_digits (nat n))"

definition is_digit :: "char \<Rightarrow> bool" where
  "is_digit c = (48 \<le> (of_char c :: nat) \<and> (of_char c :: nat) \<le> 57)"

text \<open>\<open>String.prototype.trim\<close>: strips white space and line terminators from both ends.
  Among 8-bit characters these are TAB, LF, VT, FF, CR, SPACE and NBSP.\<close>

definition is_ws :: "char \<Rightarrow> bool" where
  "is_ws c = ((of_char c :: nat) \<in> {9, 10, 11, 12, 13, 32, 160})"

definition trim :: "string \<Rightarrow> string" where
  "trim s = rev (dropWhile is_ws (rev (dropWhile is_ws s)))"

text \<open>\<open>String.prototype.toLowerCase\<close> on the code points 0 to 255: the capital letters
  are \<open>A\<close> to \<open>Z\<close> (codes 65 to 90) and the accented capitals 192 to 222 without the
  multiplication sign 215; each becomes the character 32 higher, which sets the bit of
  value 32. Every other character stays.\<close>

definition is_upper :: "char \<Rightarrow> bool" where
  "is_upper c =
     ((65 \<le> (of_char c :: nat) \<and> (of_char c :: nat) \<le> 90) \<or>
      (192 \<le> (of_char c :: nat) \<and> (of_char c :: nat) \<le> 222 \<and> (of_char c :: nat) \<noteq> 215))"

definition lower_char :: "char \<Rightarrow> char" where
  "lower_char c = (if is_upper c
                   then (case c of Char b0 b1 b2 b3 b4 b5 b6 b7 \<Rightarrow> Char b0 b1 b2 b3 b4 True b6 b7)
                   else c)"

definition toLowerCase :: "string \<Rightarrow> string" where
  "toLowerCase s = map lower_char s"

section \<open>Backend entry (index.js): configuration and helpers\<close>

definition OTP_TTL_MS :: int where
  "OTP_TTL_MS = 5 * 60 * 1000"

definition MAX_OTP_ATTEMPTS :: int where
  "MAX_OTP_ATTEMPTS = 5"

text \<open>\<open>crypto.randomInt(min, max)\<close> returns an integer \<open>r\<close> with \<open>min \<le> r < max\<close>; the
  draw itself is an input of the model.\<close>

definition randomInt_range :: "int \<Rightarrow> int \<Rightarrow> int \<Rightarrow> bool" where
  "randomInt_range lo hi r = (lo \<le> r \<and> r < hi)"

text \<open>\<open>function genOtp() { return String(crypto.randomInt(100000, 999999)); }\<close>,
  as a function of the draw.\<close>

definition genOtp :: "int \<Rightarrow> string" where
  "genOtp r = js_String r"

definition genOtp_draw :: "int \<Rightarrow> bool" where
  "genOtp_draw r = randomInt_range 100000 999999 r"

text \<open>\<open>hashOtp(otp, salt)\<close>: HMAC-SHA256 of \<open>otp + salt\<close> under the server secret, hex
  encoded. The keyed hash of Node's crypto library is a parameter \<open>H\<close> (key, then message).\<close>

definition hashOtp :: "(string \<Rightarrow> string \<Rightarrow> string) \<Rightarrow> string \<Rightarrow> string \<Rightarrow> string \<Rightarrow> string" where
  "hashOtp H secret otp salt = H secret (otp @ salt)"

section \<open>The record store and the e-mail channel\<close>

text \<open>A row of table \<open>otp_records\<close>. The primary key \<open>id\<close> (a UUID that the
  database generates with \<open>gen_random_uuid()\<close>) is a natural number here.\<close>

record otp_record =
  rec_id :: nat
  contact :: string
  otp_hash :: string
  salt :: string
  created_at :: timestamp
  expires_at :: timestamp
  consumed :: bool
  attempts :: int

text \<open>A row of table \<open>users\<close>: \<open>id\<close> primary key, \<open>email\<close> unique.\<close>

record user =
  u_id :: nat
  u_email :: string
  u_name :: string
  u_phone :: "string option"
  u_age :: "int option"
  u_created_at :: timestamp

text \<open>The state the handlers act on: the two tables, the messages handed to the SMTP
  transport by \<open>sendEmailOtp\<close> (recipient and plaintext code), and the database's id
  generator: \<open>gen_random_uuid()\<close> never gives the same id twice, which a counter models.\<close>

record server_state =
  otp_records :: "otp_record list"
  users :: "user list"
  outbox :: "(string \<times> string) list"
  uuid_counter :: nat

text \<open>The constraints of the schema: primary keys are unique and were given out by the
  generator, and \<open>users.email\<close> is unique.\<close>

definition store_ok :: "server_state \<Rightarrow> bool" where
  "store_ok st =
     (distinct (map rec_id (otp_records st)) \<and>
      (\<forall>r \<in> set (otp_records st). rec_id r < uuid_counter st) \<and>
      distinct (map u_id (users st)) \<and>
      (\<forall>u \<in> set (users st). u_id u < uuid_counter st) \<and>
      distinct (map u_email (users st)))"

text \<open>What awaiting a Supabase query gives: a result without error, a result with
  \<open>error\<close> set, or a rejected promise (caught by the handler's \<open>try/catch\<close>).\<close>

datatype outcome = Ok | Failed | Threw

text \<open>The JSON bodies the three handlers send, named by their \<open>error\<close> field.\<close>

datatype response =
    OtpSent int
  | OtpVerified
  | UserCreated user
  | database_error
  | email_error
  | internal_error
  | otp_not_found
  | otp_already_used
  | otp_expired
  | too_many_attempts
  | invalid_otp int
  | user_exists

fun http_status :: "response \<Rightarrow> nat" where
  "http_status (OtpSent _) = 200"
| "http_status OtpVerified = 200"
| "http_status (UserCreated _) = 201"
| "http_status database_error = 500"
| "http_status email_error = 500"
| "http_status internal_error = 500"
| "http_status otp_not_found = 400"
| "http_status otp_already_used = 400"
| "http_status otp_expired = 400"
| "http_status too_many_attempts = 429"
| "http_status (invalid_otp _) = 400"
| "http_status user_exists = 409"

text \<open>\<open>.eq("contact", c).order("created_at", {ascending: false}).limit(1)\<close>: the row of
  the contact with the greatest \<open>created_at\<close>. SQL leaves the order of rows with equal
  \<open>created_at\<close> open; the model takes the first of them in table order.\<close>

fun newest :: "otp_record list \<Rightarrow> otp_record option" where
  "newest [] = None"
| "newest (r # rs) =
     (case newest rs of
        None \<Rightarrow> Some r
      | Some m \<Rightarrow> if created_at m > created_at r then Some m else Some r)"

definition select_latest :: "string \<Rightarrow> otp_record list \<Rightarrow> otp_record option" where
  "select_latest c tbl = newest (filter (\<lambda>r. contact r = c) tbl)"

text \<open>\<open>.update(...).eq("id", i)\<close>.\<close>

definition update_by_id :: "nat \<Rightarrow> (otp_record \<Rightarrow> otp_record) \<Rightarrow> otp_record list \<Rightarrow> otp_record list" where
  "update_by_id i f tbl = map (\<lambda>r. if rec_id r = i then f r else r) tbl"

text \<open>\<open>.delete().eq("contact", c).lt("expires_at", now)\<close>.\<close>

definition delete_expired :: "string \<Rightarrow> timestamp \<Rightarrow> otp_record list \<Rightarrow> otp_record list" where
  "delete_expired c now tbl = filter (\<lambda>r. \<not> (contact r = c \<and> expires_at r < now)) tbl"

section \<open>POST /auth/request-otp\<close>

text \<open>Each route is modelled by its handler, the last function of the route; the rate
  limiters and the validation chains that Express runs before it are not part of the
  model.

  What the environment supplies to one run of the handler: the three clock readings
  (the cleanup query, \<open>created_at\<close>, \<open>Date.now()\<close> for \<open>expires_at\<close>), the random draw
  and salt, the results of the two queries, and whether \<open>sendEmailOtp\<close> resolved.\<close>

record request_otp_env =
  cleanup_now :: timestamp
  cleanup_result :: outcome
  draw :: int
  new_salt :: string
  created_now :: timestamp
  expires_now :: timestamp
  insert_result :: outcome
  email_sent :: bool

definition new_row ::
  "(string \<Rightarrow> string \<Rightarrow> string) \<Rightarrow> string \<Rightarrow> request_otp_env \<Rightarrow> nat \<Rightarrow> string \<Rightarrow> otp_record" where
  "new_row H secret env i em =
     \<lparr> rec_id = i, contact = em,
       otp_hash = hashOtp H secret (genOtp (draw env)) (new_salt env),
       salt = new_salt env, created_at = created_now env,
       expires_at = expires_now env + OTP_TTL_MS, consumed = False, attempts = 0 \<rparr>"

text \<open>The handler. The result of the cleanup query is not looked at; an insert that
  reports an error (also a primary-key clash) answers \<open>database_error\<close> before any
  e-mail is sent; a failed send answers \<open>email_error\<close> and leaves the inserted row.\<close>

definition request_otp ::
  "(string \<Rightarrow> string \<Rightarrow> string) \<Rightarrow> string \<Rightarrow> request_otp_env \<Rightarrow> string \<Rightarrow> server_state
     \<Rightarrow> response \<times> server_state" where
  "request_otp H secret env em st =
     (if cleanup_result env = Threw then (internal_error, st)
      else
        let tbl = (if cleanup_result env = Ok
                   then delete_expired em (cleanup_now env) (otp_records st)
                   else otp_records st);
            st1 = st\<lparr>otp_records := tbl\<rparr>;
            otp = genOtp (draw env)
        in if insert_result env = Threw then (internal_error, st1)
           else if insert_result env = Failed \<or> uuid_counter st \<in> set (map rec_id tbl)
             then (database_error, st1)
           else
             let st2 = st1\<lparr>otp_records := tbl @ [new_row H secret env (uuid_counter st) em],
                           uuid_counter := Suc (uuid_counter st)\<rparr>
             in if email_sent env
                then (OtpSent (OTP_TTL_MS div 1000), st2\<lparr>outbox := outbox st2 @ [(em, otp)]\<rparr>)
                else (email_error, st2))"

section \<open>POST /auth/verify-otp\<close>

record verify_otp_env =
  fetch_result :: outcome
  verify_now :: timestamp
  attempts_result :: outcome
  consume_result :: outcome

text \<open>The handler, check by check in the order of the source: no row, consumed, expired,
  attempt limit, then the comparison of \<open>hashOtp(String(otp).trim(), rec.salt)\<close> with the
  stored hash. The result of the update of \<open>attempts\<close> is not looked at.\<close>

definition verify_otp ::
  "(string \<Rightarrow> string \<Rightarrow> string) \<Rightarrow> string \<Rightarrow> verify_otp_env \<Rightarrow> string \<Rightarrow> string \<Rightarrow> server_state
     \<Rightarrow> response \<times> server_state" where
  "verify_otp H secret env c otp st =
     (if fetch_result env = Threw then (internal_error, st)
      else if fetch_result env = Failed then (database_error, st)
      else
        case select_latest c (otp_records st) of
          None \<Rightarrow> (otp_not_found, st)
        | Some rec \<Rightarrow>
            if consumed rec then (otp_already_used, st)
            else if verify_now env > expires_at rec then (otp_expired, st)
            else if attempts rec \<ge> MAX_OTP_ATTEMPTS then (too_many_attempts, st)
            else
              let candidate = hashOtp H secret (trim otp) (salt rec)
              in if candidate \<noteq> otp_hash rec
                 then
                   (if attempts_result env = Threw then (internal_error, st)
                    else
                      (invalid_otp (MAX_OTP_ATTEMPTS - (attempts rec + 1)),
                       if attempts_result env = Ok
                       then st\<lparr>otp_records :=
                              update_by_id (rec_id rec) (\<lambda>r. r\<lparr>attempts := attempts rec + 1\<rparr>)
                                (otp_records st)\<rparr>
                       else st))
                 else
                   (if consume_result env = Threw then (internal_error, st)
                    else if consume_result env = Failed then (database_error, st)
                    else
                      (OtpVerified,
                       st\<lparr>otp_records :=
                            update_by_id (rec_id rec) (\<lambda>r. r\<lparr>consumed := True\<rparr>)
                              (otp_records st)\<rparr>)))"

text \<open>A run of consecutive calls for one contact: the responses in order, and the
  state after the last.\<close>

fun verify_run ::
  "(string \<Rightarrow> string \<Rightarrow> string) \<Rightarrow> string \<Rightarrow> string \<Rightarrow> (verify_otp_env \<times> string) list \<Rightarrow> server_state
     \<Rightarrow> response list \<times> server_state" where
  "verify_run H secret c [] st = ([], st)"
| "verify_run H secret c ((env, otp) # calls) st =
     (let (resp, st1) = verify_otp H secret env c otp st;
          (resps, st2) = verify_run H secret c calls st1
      in (resp # resps, st2))"

section \<open>The route of verify-otp: what runs before the handler\<close>

text \<open>Before the handler Express runs, in this order: \<open>sanitizeInput\<close> on every string of
  the body, the general rate limiter, the route's \<open>authLimiter\<close> and
  \<open>validateOtpVerification\<close>. The functions of the libraries are parameters:
  \<open>isEmail\<close>, \<open>normalizeEmail\<close> and \<open>isNumeric\<close> of express-validator, and
  \<open>strip_script\<close>, the replacement of the regular expression of \<open>sanitizeString\<close>, which
  can only match where the string has a \<open><\<close>.\<close>

record library =
  isEmail :: "string \<Rightarrow> bool"
  normalizeEmail :: "string \<Rightarrow> string"
  isNumeric :: "string \<Rightarrow> bool"
  strip_script :: "string \<Rightarrow> string"

definition sanitizeString :: "library \<Rightarrow> string \<Rightarrow> string" where
  "sanitizeString L str = (if CHR ''<'' \<in> set str then strip_script L str else str)"

text \<open>Whether the two rate limiters refuse the request (they count requests per IP
  address, outside this model).\<close>

record route_env =
  general_limited :: bool
  auth_limited :: bool

text \<open>The answers given before the handler runs, named by their \<open>error\<close> field.\<close>

datatype refusal = rate_limit_exceeded | auth_rate_limit_exceeded | validation_error

text \<open>\<open>body('contact').isEmail().normalizeEmail()\<close> and
  \<open>body('otp').isLength({ min: 6, max: 6 }).isNumeric()\<close>: any failed validator makes
  \<open>handleValidationErrors\<close> answer \<open>validation_error\<close>; otherwise the handler runs on the
  normalized contact and the code as submitted.\<close>

definition verify_route ::
  "library \<Rightarrow> (string \<Rightarrow> string \<Rightarrow> string) \<Rightarrow> string \<Rightarrow> route_env \<Rightarrow> verify_otp_env \<Rightarrow> string \<Rightarrow> string
     \<Rightarrow> server_state \<Rightarrow> (refusal + response) \<times> server_state" where
  "verify_route L H secret renv env c otp st =
     (let c1 = sanitizeString L c;
          otp1 = sanitizeString L otp
      in if general_limited renv then (Inl rate_limit_exceeded, st)
         else if auth_limited renv then (Inl auth_rate_limit_exceeded, st)
         else if \<not> isEmail L c1 \<or> length otp1 < 6 \<or> 6 < length otp1 \<or> \<not> isNumeric L otp1
           then (Inl validation_error, st)
         else (case verify_otp H secret env (normalizeEmail L c1) otp1 st of
                 (resp, st1) \<Rightarrow> (Inr resp, st1)))"

section \<open>POST /auth/signup\<close>

record signup_env =
  lookup_result :: outcome
  signup_insert :: outcome
  signup_now :: timestamp

text \<open>\<open>.single()\<close> gives the row when the query has exactly one, otherwise no data.\<close>

fun single :: "'a list \<Rightarrow> 'a option" where
  "single [x] = Some x"
| "single _ = None"

text \<open>The handler: looks the request's \<open>email\<close> up in \<open>users\<close>, then inserts the row
  with \<open>email.toLowerCase()\<close>, \<open>name.trim()\<close>, \<open>phone?.trim()\<close> and \<open>parseInt(age)\<close>
  (the age arrives as an integer or is absent). A unique violation (code 23505, on the
  e-mail or on the primary key) answers \<open>user_exists\<close>. Table \<open>otp_records\<close> is never
  read.\<close>

definition signup ::
  "signup_env \<Rightarrow> string \<Rightarrow> string \<Rightarrow> string option \<Rightarrow> int option \<Rightarrow> server_state
     \<Rightarrow> response \<times> server_state" where
  "signup env em nm ph ag st =
     (if lookup_result env = Threw then (internal_error, st)
      else
        let existingUser = (if lookup_result env = Ok
                            then single (filter (\<lambda>u. u_email u = em) (users st))
                            else None)
        in if existingUser \<noteq> None then (user_exists, st)
           else if signup_insert env = Threw then (internal_error, st)
           else if signup_insert env = Failed then (database_error, st)
           else if toLowerCase em \<in> set (map u_email (users st))
                   \<or> uuid_counter st \<in> set (map u_id (users st))
             then (user_exists, st)
           else
             let u = \<lparr> u_id = uuid_counter st, u_email = toLowerCase em, u_name = trim nm,
                       u_phone = map_option trim ph, u_age = ag,
                       u_created_at = signup_now env \<rparr>
             in (UserCreated u,
                 st\<lparr>users := users st @ [u], uuid_counter := Suc (uuid_counter st)\<rparr>))"

section \<open>The engine as a transition system\<close>

datatype request =
    RequestOtp request_otp_env string
  | VerifyOtp verify_otp_env string string
  | Signup signup_env string string "string option" "int option"

fun handle ::
  "(string \<Rightarrow> string \<Rightarrow> string) \<Rightarrow> string \<Rightarrow> request \<Rightarrow> server_state \<Rightarrow> response \<times> server_state" where
  "handle H secret (RequestOtp env em) st = request_otp H secret env em st"
| "handle H secret (VerifyOtp env c otp) st = verify_otp H secret env c otp st"
| "handle H secret (Signup env em nm ph ag) st = signup env em nm ph ag st"

text \<open>The store after a sequence of requests, served one after the other.\<close>

fun engine_run ::
  "(string \<Rightarrow> string \<Rightarrow> string) \<Rightarrow> string \<Rightarrow> request list \<Rightarrow> server_state \<Rightarrow> server_state" where
  "engine_run H secret [] st = st"
| "engine_run H secret (req # reqs) st = engine_run H secret reqs (snd (handle H secret req st))"

section \<open>The browser's DatabaseService (ds.js): OTP storage in memory\<close>

text \<open>The profile data handed to \<open>sendRegistrationOTP\<close>, and an entry of the
  \<open>otpStorage\<close> map (fields \<open>otp\<close>, \<open>userData\<close>, \<open>expiryTime\<close>, \<open>attempts\<close>).\<close>

record user_data =
  fullName :: string
  role :: string
  department :: string
  phone :: string

record otp_data =
  otp_e :: string
  userData :: user_data
  expiryTime :: timestamp
  attempts_e :: int

text \<open>The service object. The entries of the map are JavaScript objects: \<open>otpStorage\<close>
  maps an e-mail address to the address of its entry in \<open>objects\<close>, and an object
  literal allocates at \<open>next_addr\<close>. \<open>delivered\<close> lists the codes the e-mail service
  accepted, \<open>simulated\<close> those that went to the fallback simulation.\<close>

record db_service =
  objects :: "nat \<Rightarrow> otp_data"
  next_addr :: nat
  otpStorage :: "string \<rightharpoonup> nat"
  delivered :: "(string \<times> string) list"
  simulated :: "(string \<times> string) list"

definition otpExpiry :: int where
  "otpExpiry = 10"

text \<open>One call's inputs from outside: the clock, the value of
  \<open>Math.floor(100000 + Math.random() * 900000)\<close>, and whether the e-mail service
  reported success.\<close>

record ds_env =
  ds_now :: timestamp
  ds_draw :: int
  service_ok :: bool

definition generateOTP :: "int \<Rightarrow> string" where
  "generateOTP k = js_String k"

text \<open>What a successful call returns (\<open>success: true\<close>), and the messages of the errors
  thrown.\<close>

record send_result =
  message :: string
  res_expiryTime :: timestamp

text \<open>\<open>sendOTPEmail\<close> falls back to the simulation when the e-mail service fails, and
  so always resolves.\<close>

definition sendOTPEmail :: "ds_env \<Rightarrow> string \<Rightarrow> string \<Rightarrow> db_service \<Rightarrow> db_service" where
  "sendOTPEmail env em code svc =
     (if service_ok env then svc\<lparr>delivered := delivered svc @ [(em, code)]\<rparr>
      else svc\<lparr>simulated := simulated svc @ [(em, code)]\<rparr>)"

text \<open>\<open>sendRegistrationOTP(email, userData)\<close>: stores a new entry object under the
  address and sends the code.\<close>

definition sendRegistrationOTP ::
  "ds_env \<Rightarrow> string \<Rightarrow> user_data \<Rightarrow> db_service \<Rightarrow> (string + send_result) \<times> db_service" where
  "sendRegistrationOTP env em ud svc =
     (let code = generateOTP (ds_draw env);
          expiry = ds_now env + otpExpiry * 60 * 1000;
          a = next_addr svc;
          svc1 = svc\<lparr>objects := (objects svc)(a := \<lparr> otp_e = code, userData = ud,
                                                      expiryTime = expiry, attempts_e = 0 \<rparr>),
                     next_addr := Suc a,
                     otpStorage := (otpStorage svc)(em \<mapsto> a)\<rparr>
      in (Inr \<lparr> message = ''OTP sent successfully'', res_expiryTime = expiry \<rparr>,
          sendOTPEmail env em code svc1))"

text \<open>\<open>resendOTP(email)\<close>: throws when the map has no entry for the address; otherwise
  assigns \<open>otp\<close>, \<open>expiryTime\<close> and \<open>attempts = 0\<close> to the entry object it got from the
  map, and sends the new code.\<close>

definition resendOTP ::
  "ds_env \<Rightarrow> string \<Rightarrow> db_service \<Rightarrow> (string + send_result) \<times> db_service" where
  "resendOTP env em svc =
     (case otpStorage svc em of
        None \<Rightarrow> (Inl ''No pending registration found for this email.'', svc)
      | Some a \<Rightarrow>
          let newOTP = generateOTP (ds_draw env);
              newExpiryTime = ds_now env + otpExpiry * 60 * 1000;
              svc1 = svc\<lparr>objects := (objects svc)(a := (objects svc a)
                           \<lparr>otp_e := newOTP, expiryTime := newExpiryTime, attempts_e := 0\<rparr>)\<rparr>
          in (Inr \<lparr> message = ''New OTP sent successfully'', res_expiryTime = newExpiryTime \<rparr>,
              sendOTPEmail env em newOTP svc1))"

text \<open>\<open>verifyRegistrationOTP(email, enteredOTP, password)\<close>: \<open>signup_ok\<close> tells whether
  \<open>this.signUp\<close> (Supabase, outside this model) went through. Every failure is thrown as
  an error with the message given.\<close>

definition verifyRegistrationOTP ::
  "timestamp \<Rightarrow> bool \<Rightarrow> string \<Rightarrow> string \<Rightarrow> db_service \<Rightarrow> (string + unit) \<times> db_service" where
  "verifyRegistrationOTP now signup_ok em enteredOTP svc =
     (case otpStorage svc em of
        None \<Rightarrow> (Inl ''OTP not found or expired. Please request a new one.'', svc)
      | Some a \<Rightarrow>
          let otpData = objects svc a
          in if now > expiryTime otpData
             then (Inl ''OTP has expired. Please request a new one.'',
                   svc\<lparr>otpStorage := (otpStorage svc)(em := None)\<rparr>)
             else if attempts_e otpData \<ge> 3
             then (Inl ''Too many failed attempts. Please request a new OTP.'',
                   svc\<lparr>otpStorage := (otpStorage svc)(em := None)\<rparr>)
             else if otp_e otpData \<noteq> enteredOTP
             then (Inl (''Invalid OTP. '' @ js_String (3 - (attempts_e otpData + 1))
                          @ '' attempts remaining.''),
                   svc\<lparr>objects := (objects svc)(a := otpData\<lparr>attempts_e := attempts_e otpData + 1\<rparr>)\<rparr>)
             else if signup_ok
             then (Inr (), svc\<lparr>otpStorage := (otpStorage svc)(em := None)\<rparr>)
             else (Inl ''Registration failed'', svc))"

text \<open>Resend as C7 words it, for comparison with \<open>resendOTP\<close>: it fails when no record
  exists for the contact, and otherwise is the issue operation with the profile data of
  the existing record, which creates a fresh record.\<close>

definition resend_as_issue ::
  "ds_env \<Rightarrow> string \<Rightarrow> db_service \<Rightarrow> (string + send_result) \<times> db_service" where
  "resend_as_issue env em svc =
     (case otpStorage svc em of
        None \<Rightarrow> (Inl ''No pending registration found for this email.'', svc)
      | Some a \<Rightarrow> sendRegistrationOTP env em (userData (objects svc a)) svc)"

text \<open>What a later \<open>otpStorage.get(email)\<close> reads.\<close>

definition lookup_entry :: "db_service \<Rightarrow> string \<Rightarrow> otp_data option" where
  "lookup_entry svc em = map_option (objects svc) (otpStorage svc em)"

section \<open>The registration page (register.js): the countdown timer\<close>

text \<open>The fields of \<open>MedicalRegistration\<close> that the timer code touches, the \<open>disabled\<close>
  flag of the resend button, the minutes and seconds shown in \<open>otpTimer\<close>, and the
  window's interval timers: \<open>intervals\<close> lists the handles that \<open>setInterval\<close> returned
  and \<open>clearInterval\<close> has not cleared; handles are positive and never reused.\<close>

record registration =
  currentStep :: nat
  otpTimerInterval :: "nat option"
  otpExpiryTime :: "timestamp option"
  resend_disabled :: bool
  otpTimer_shown :: "int \<times> int"
  intervals :: "nat list"
  next_handle :: nat

definition startOTPTimer :: "registration \<Rightarrow> registration" where
  "startOTPTimer s =
     (if otpExpiryTime s = None then s
      else s\<lparr>otpTimerInterval := Some (next_handle s),
             intervals := intervals s @ [next_handle s],
             next_handle := Suc (next_handle s)\<rparr>)"

definition clearOTPTimer :: "registration \<Rightarrow> registration" where
  "clearOTPTimer s =
     (case otpTimerInterval s of
        None \<Rightarrow> s
      | Some h \<Rightarrow> s\<lparr>intervals := removeAll h (intervals s), otpTimerInterval := None\<rparr>)"

definition enableResendButton :: "registration \<Rightarrow> registration" where
  "enableResendButton s = s\<lparr>resend_disabled := False\<rparr>"

text \<open>The callback that \<open>startOTPTimer\<close> hands to \<open>setInterval\<close>; every interval runs
  the same closure over \<open>this\<close>. In the subtraction a \<open>null\<close> expiry time counts as 0.\<close>

definition timer_callback :: "timestamp \<Rightarrow> registration \<Rightarrow> registration" where
  "timer_callback now s =
     (let timeLeft = (case otpExpiryTime s of None \<Rightarrow> 0 | Some expiry \<Rightarrow> expiry) - now
      in if timeLeft \<le> 0
         then (enableResendButton (clearOTPTimer s))\<lparr>otpTimer_shown := (0, 0)\<rparr>
         else s\<lparr>otpTimer_shown := (timeLeft div 60000, (timeLeft mod 60000) div 1000)\<rparr>)"

text \<open>\<open>handleRegistration\<close> once the form is valid: \<open>expiresIn\<close> is what
  \<open>productionAPI.requestOTP\<close> returned, \<open>None\<close> when it threw.\<close>

definition handleRegistration :: "timestamp \<Rightarrow> int option \<Rightarrow> registration \<Rightarrow> registration" where
  "handleRegistration now expiresIn s =
     (case expiresIn of
        None \<Rightarrow> s
      | Some n \<Rightarrow> startOTPTimer (s\<lparr>otpExpiryTime := Some (now + n * 1000), currentStep := 2\<rparr>))"

text \<open>\<open>resendOTP\<close> of the page: \<open>result\<close> is the expiry time that \<open>dbService.resendOTP\<close>
  returned, \<open>None\<close> when it threw. \<open>setLoadingState(this.resendBtn, false)\<close> in the
  \<open>finally\<close> block sets \<open>disabled\<close> to \<open>false\<close> on both paths.\<close>

definition page_resendOTP :: "timestamp option \<Rightarrow> registration \<Rightarrow> registration" where
  "page_resendOTP result s =
     (let s1 = s\<lparr>resend_disabled := True\<rparr>;
          s2 = (case result of
                  Some expiry \<Rightarrow> startOTPTimer (s1\<lparr>otpExpiryTime := Some expiry\<rparr>)
                | None \<Rightarrow> enableResendButton s1)
      in s2\<lparr>resend_disabled := False\<rparr>)"

definition goBackToRegistration :: "registration \<Rightarrow> registration" where
  "goBackToRegistration s = clearOTPTimer (s\<lparr>currentStep := 1\<rparr>)"

text \<open>\<open>handleOTPVerification\<close> with a complete code: \<open>ok\<close> tells whether verification and
  registration went through.\<close>

definition handleOTPVerification :: "bool \<Rightarrow> registration \<Rightarrow> registration" where
  "handleOTPVerification ok s = (if ok then (clearOTPTimer s)\<lparr>currentStep := 3\<rparr> else s)"

text \<open>The page together with the service it calls. An event is a form submission, a
  click or the firing of an interval; a click on a disabled button and a timer that was
  cleared deliver nothing. The resend click calls \<open>dbService.resendOTP\<close> for the
  registered address and hands its outcome to the page.\<close>

datatype event =
    SubmitRegistration timestamp "int option"
  | Fire nat timestamp
  | ClickResend ds_env
  | ClickBack
  | SubmitOTP bool

fun page_step :: "string \<Rightarrow> event \<Rightarrow> registration \<times> db_service \<Rightarrow> (registration \<times> db_service) option" where
  "page_step em (SubmitRegistration now expiresIn) (s, svc) =
     (if currentStep s = 1 then Some (handleRegistration now expiresIn s, svc) else None)"
| "page_step em (Fire h now) (s, svc) =
     (if h \<in> set (intervals s) then Some (timer_callback now s, svc) else None)"
| "page_step em (ClickResend env) (s, svc) =
     (if currentStep s = 2 \<and> \<not> resend_disabled s
      then (case resendOTP env em svc of
              (Inr r, svc1) \<Rightarrow> Some (page_resendOTP (Some (res_expiryTime r)) s, svc1)
            | (Inl msg, svc1) \<Rightarrow> Some (page_resendOTP None s, svc1))
      else None)"
| "page_step em ClickBack (s, svc) =
     (if currentStep s = 2 then Some (goBackToRegistration s, svc) else None)"
| "page_step em (SubmitOTP ok) (s, svc) =
     (if currentStep s = 2 then Some (handleOTPVerification ok s, svc) else None)"

fun page_run :: "string \<Rightarrow> event list \<Rightarrow> registration \<times> db_service \<Rightarrow> (registration \<times> db_service) option" where
  "page_run em [] cfg = Some cfg"
| "page_run em (ev # evs) cfg =
     (case page_step em ev cfg of None \<Rightarrow> None | Some cfg1 \<Rightarrow> page_run em evs cfg1)"

text \<open>The interval timers that are active after a run, and the handle the page holds.\<close>

definition timers_of :: "(registration \<times> db_service) option \<Rightarrow> (nat list \<times> nat option) option" where
  "timers_of r = map_option (\<lambda>cfg. (intervals (fst cfg), otpTimerInterval (fst cfg))) r"


text \<open>The page as constructed (the resend button's initial \<open>disabled\<close> flag comes from
  the HTML, here \<open>b\<close>), and the service as constructed.\<close>

definition new_page :: "bool \<Rightarrow> registration" where
  "new_page b = \<lparr> currentStep = 1, otpTimerInterval = None, otpExpiryTime = None,
                  resend_disabled = b, otpTimer_shown = (0, 0), intervals = [], next_handle = 1 \<rparr>"

definition new_service :: db_service where
  "new_service = \<lparr> objects = (\<lambda>_. \<lparr> otp_e = [], userData = \<lparr> fullName = [], role = [],
                       department = [], phone = [] \<rparr>, expiryTime = 0, attempts_e = 0 \<rparr>),
                   next_addr = 0, otpStorage = Map.empty, delivered = [], simulated = [] \<rparr>"

text \<open>A keyed hash to evaluate the handlers on concrete inputs: key and message
  concatenated, so that different messages never collide.\<close>

definition concat_mac :: "string \<Rightarrow> string \<Rightarrow> string" where
  "concat_mac key msg = key @ msg"

text \<open>A call of \<open>verify-otp\<close> that reaches the comparison with a code that does not
  hash to the stored hash of record \<open>r\<close>: the queries succeed and \<open>r\<close> is not expired.\<close>

definition wrong_call ::
  "(string \<Rightarrow> string \<Rightarrow> string) \<Rightarrow> string \<Rightarrow> otp_record \<Rightarrow> verify_otp_env \<times> string \<Rightarrow> bool" where
  "wrong_call H secret r call =
     (fetch_result (fst call) = Ok \<and> attempts_result (fst call) = Ok \<and>
      verify_now (fst call) \<le> expires_at r \<and>
      hashOtp H secret (trim (snd call)) (salt r) \<noteq> otp_hash r)"

section \<open>Example data\<close>

text \<open>The store after one issue for \<open>a@x.com\<close> on an empty store: code \<open>100123\<close>,
  salt \<open>ab12\<close>, hashed under the development secret, created at 1000 ms and expiring
  5 minutes later.\<close>

definition ex_rec :: otp_record where
  "ex_rec = \<lparr> rec_id = 0, contact = ''a@x.com'',
              otp_hash = hashOtp concat_mac ''devsecret'' ''100123'' ''ab12'',
              salt = ''ab12'', created_at = 1000, expires_at = 301000,
              consumed = False, attempts = 0 \<rparr>"

definition ex_state :: server_state where
  "ex_state = \<lparr> otp_records = [ex_rec], users = [], outbox = [(''a@x.com'', ''100123'')],
                uuid_counter = 1 \<rparr>"

text \<open>The store after a second issue for the same contact at 2000 ms: code \<open>654321\<close>,
  salt \<open>cd34\<close>.\<close>

definition ex_rec2 :: otp_record where
  "ex_rec2 = \<lparr> rec_id = 1, contact = ''a@x.com'',
               otp_hash = hashOtp concat_mac ''devsecret'' ''654321'' ''cd34'',
               salt = ''cd34'', created_at = 2000, expires_at = 302000,
               consumed = False, attempts = 0 \<rparr>"

definition ex_state2 :: server_state where
  "ex_state2 = \<lparr> otp_records = [ex_rec, ex_rec2], users = [],
                 outbox = [(''a@x.com'', ''100123''), (''a@x.com'', ''654321'')],
                 uuid_counter = 2 \<rparr>"

text \<open>The same two records with the newer one first in the table.\<close>

definition ex_state_rev :: server_state where
  "ex_state_rev = ex_state2\<lparr>otp_records := [ex_rec2, ex_rec]\<rparr>"

text \<open>Stand-ins for the library's functions that agree with it on the addresses and
  codes of the examples: an address has an \<open>@\<close>, normalizing leaves a lower-case address
  as it is, a numeric string consists of digits.\<close>

definition ex_library :: library where
  "ex_library = \<lparr> isEmail = (\<lambda>a. CHR ''@'' \<in> set a), normalizeEmail = (\<lambda>a. a),
                  isNumeric = (\<lambda>a. a \<noteq> [] \<and> list_all is_digit a), strip_script = (\<lambda>a. a) \<rparr>"

definition unlimited :: route_env where
  "unlimited = \<lparr> general_limited = False, auth_limited = False \<rparr>"

text \<open>The example store after its record was verified.\<close>

definition ex_used :: server_state where
  "ex_used = ex_state\<lparr>otp_records := [ex_rec\<lparr>consumed := True\<rparr>]\<rparr>"

text \<open>An empty store, and a run of \<open>request-otp\<close> at time \<open>t\<close> with draw \<open>d\<close> and salt
  \<open>s\<close> in which the queries succeed; \<open>sent\<close> tells whether the e-mail goes out.\<close>

definition empty_state :: server_state where
  "empty_state = \<lparr> otp_records = [], users = [], outbox = [], uuid_counter = 0 \<rparr>"

definition issue_at :: "timestamp \<Rightarrow> int \<Rightarrow> string \<Rightarrow> bool \<Rightarrow> request_otp_env" where
  "issue_at t d s sent =
     \<lparr> cleanup_now = t, cleanup_result = Ok, draw = d, new_salt = s, created_now = t,
       expires_now = t, insert_result = Ok, email_sent = sent \<rparr>"

text \<open>A run of \<open>signup\<close> at time \<open>t\<close> in which the queries succeed.\<close>

definition signup_at :: "timestamp \<Rightarrow> signup_env" where
  "signup_at t = \<lparr> lookup_result = Ok, signup_insert = Ok, signup_now = t \<rparr>"

text \<open>The service after \<open>sendRegistrationOTP\<close> for \<open>a@x.com\<close> at 1000 ms (code
  \<open>100123\<close>), and after two wrong codes were then entered.\<close>

definition ex_user :: user_data where
  "ex_user = \<lparr> fullName = ''Ann'', role = ''nurse'', department = ''icu'', phone = ''555'' \<rparr>"

definition ds_at :: "timestamp \<Rightarrow> int \<Rightarrow> ds_env" where
  "ds_at t k = \<lparr> ds_now = t, ds_draw = k, service_ok = True \<rparr>"

definition ex_service :: db_service where
  "ex_service = snd (sendRegistrationOTP (ds_at 1000 100123) ''a@x.com'' ex_user new_service)"

definition ex_service2 :: db_service where
  "ex_service2 =
     snd (verifyRegistrationOTP 3000 True ''a@x.com'' ''000001''
       (snd (verifyRegistrationOTP 2000 True ''a@x.com'' ''000000'' ex_service)))"

text \<open>A run of \<open>verify-otp\<close> at time \<open>t\<close> in which every query succeeds.\<close>

definition ok_at :: "timestamp \<Rightarrow> verify_otp_env" where
  "ok_at t = \<lparr> fetch_result = Ok, verify_now = t, attempts_result = Ok, consume_result = Ok \<rparr>"


section \<open>Properties of the helpers\<close>

lemma nat_digits_small: "n < 10 \<Longrightarrow> nat_digits n = [digit_char n]"
  by (subst nat_digits.simps) simp

lemma nat_digits_large: "10 \<le> n \<Longrightarrow> nat_digits n = nat_digits (n div 10) @ [digit_char (n mod 10)]"
  by (subst nat_digits.simps) simp

lemma is_digit_digit_char: "is_digit (digit_char d)"
  by (simp add: is_digit_def digit_char_def)

lemma digit_char_zero_iff: "digit_char d = CHR ''0'' \<longleftrightarrow> d = 0"
  by (simp add: digit_char_def)

lemma nat_digits_six:
  assumes "100000 \<le> n" and "n < 1000000"
  shows "nat_digits n =
    [digit_char (n div 100000), digit_char (n div 10000 mod 10), digit_char (n div 1000 mod 10),
     digit_char (n div 100 mod 10), digit_char (n div 10 mod 10), digit_char (n mod 10)]"
proof -
  have a: "nat_digits n = nat_digits (n div 10) @ [digit_char (n mod 10)]"
    using assms by (intro nat_digits_large) simp
  have "10 \<le> n div 10" using assms by simp
  then have b: "nat_digits (n div 10) = nat_digits (n div 100) @ [digit_char (n div 10 mod 10)]"
    using nat_digits_large [of "n div 10"] by (simp add: div_mult2_eq [symmetric])
  have "10 \<le> n div 100" using assms by simp
  then have c: "nat_digits (n div 100) = nat_digits (n div 1000) @ [digit_char (n div 100 mod 10)]"
    using nat_digits_large [of "n div 100"] by (simp add: div_mult2_eq [symmetric])
  have "10 \<le> n div 1000" using assms by simp
  then have d: "nat_digits (n div 1000) = nat_digits (n div 10000) @ [digit_char (n div 1000 mod 10)]"
    using nat_digits_large [of "n div 1000"] by (simp add: div_mult2_eq [symmetric])
  have "10 \<le> n div 10000" using assms by simp
  then have e: "nat_digits (n div 10000) = nat_digits (n div 100000) @ [digit_char (n div 10000 mod 10)]"
    using nat_digits_large [of "n div 10000"] by (simp add: div_mult2_eq [symmetric])
  have "n div 100000 < 10" using assms by simp
  then have f: "nat_digits (n div 100000) = [digit_char (n div 100000)]"
    by (rule nat_digits_small)
  show ?thesis unfolding a b c d e f by simp
qed

lemma genOtp_shape:
  assumes "100000 \<le> r" and "r < 1000000"
  shows "length (genOtp r) = 6 \<and> list_all is_digit (genOtp r) \<and> hd (genOtp r) \<noteq> CHR ''0''"
proof -
  define n where "n = nat r"
  have n: "100000 \<le> n" "n < 1000000" using assms by (simp_all add: n_def)
  have g: "genOtp r = nat_digits n"
    using assms by (simp add: genOtp_def js_String_def n_def)
  have lead: "n div 100000 \<noteq> 0" using n by simp
  have nz: "digit_char (n div 100000) \<noteq> CHR ''0''"
    using lead by (simp only: digit_char_zero_iff not_False_eq_True)
  have len: "length (nat_digits n) = 6" unfolding nat_digits_six [OF n] by simp
  have hd: "hd (nat_digits n) = digit_char (n div 100000)" unfolding nat_digits_six [OF n] by simp
  have dg: "list_all is_digit (nat_digits n)"
    unfolding nat_digits_six [OF n] by (simp add: is_digit_digit_char)
  show ?thesis unfolding g using len hd dg nz by simp
qed

section \<open>Properties of the record store\<close>

lemma newest_None_iff: "newest xs = None \<longleftrightarrow> xs = []"
  by (induction xs) (auto split: option.splits)

lemma newest_mem: "newest xs = Some r \<Longrightarrow> r \<in> set xs"
  by (induction xs arbitrary: r) (auto split: option.splits if_splits)

lemma newest_max: "newest xs = Some m \<Longrightarrow> x \<in> set xs \<Longrightarrow> created_at x \<le> created_at m"
proof (induction xs arbitrary: m)
  case Nil
  then show ?case by simp
next
  case (Cons a xs)
  show ?case
  proof (cases "newest xs")
    case None
    then have "xs = []" by (simp add: newest_None_iff)
    with Cons.prems None show ?thesis by simp
  next
    case (Some k)
    with Cons.prems Cons.IH [OF Some] show ?thesis
      by (auto split: if_splits)
  qed
qed

lemma newest_map:
  assumes "\<And>r. created_at (g r) = created_at r"
  shows "newest (map g xs) = map_option g (newest xs)"
  by (induction xs) (auto simp: assms split: option.splits)

lemma newest_snoc:
  assumes "\<And>x. x \<in> set xs \<Longrightarrow> created_at x < created_at n"
  shows "newest (xs @ [n]) = Some n"
  using assms by (induction xs) (auto split: option.splits)

lemma select_latest_None_iff: "select_latest c tbl = None \<longleftrightarrow> (\<forall>r \<in> set tbl. contact r \<noteq> c)"
  by (auto simp: select_latest_def newest_None_iff filter_empty_conv)

lemma select_latest_mem: "select_latest c tbl = Some r \<Longrightarrow> r \<in> set tbl \<and> contact r = c"
  using newest_mem [of "filter (\<lambda>r. contact r = c) tbl" r] by (simp add: select_latest_def)

lemma select_latest_map:
  assumes "\<And>r. created_at (g r) = created_at r" and "\<And>r. contact (g r) = contact r"
  shows "select_latest c (map g tbl) = map_option g (select_latest c tbl)"
proof -
  have "filter (\<lambda>r. contact r = c) (map g tbl) = map g (filter (\<lambda>r. contact r = c) tbl)"
    by (simp add: filter_map o_def assms)
  then show ?thesis by (simp add: select_latest_def newest_map [OF assms(1)])
qed

lemma select_latest_update:
  assumes "select_latest c tbl = Some r"
    and "\<And>x. created_at (f x) = created_at x" and "\<And>x. contact (f x) = contact x"
  shows "select_latest c (update_by_id (rec_id r) f tbl) = Some (f r)"
proof -
  let ?g = "\<lambda>x. if rec_id x = rec_id r then f x else x"
  have "select_latest c (map ?g tbl) = map_option ?g (select_latest c tbl)"
    by (rule select_latest_map) (simp_all add: assms)
  with assms(1) show ?thesis by (simp add: update_by_id_def)
qed

lemma select_latest_snoc:
  assumes "\<And>x. x \<in> set tbl \<Longrightarrow> contact x = c \<Longrightarrow> created_at x < created_at n" and "contact n = c"
  shows "select_latest c (tbl @ [n]) = Some n"
proof -
  have "newest (filter (\<lambda>r. contact r = c) tbl @ [n]) = Some n"
    by (rule newest_snoc) (simp add: assms(1))
  then show ?thesis by (simp add: select_latest_def assms(2))
qed

section \<open>Properties of trim\<close>

lemma dropWhile_fixed: "xs = [] \<or> \<not> P (hd xs) \<Longrightarrow> dropWhile P xs = xs"
  by (cases xs) auto

lemma dropWhile_all: "(\<And>x. x \<in> set xs \<Longrightarrow> P x) \<Longrightarrow> dropWhile P xs = []"
  by simp

lemma dropWhile_head: "dropWhile P xs = [] \<or> \<not> P (hd (dropWhile P xs))"
  using hd_dropWhile by blast

lemma last_dropWhile_keep: "dropWhile P xs \<noteq> [] \<Longrightarrow> last (dropWhile P xs) = last xs"
  by (induction xs) (auto split: if_splits)

lemma trim_shape: "trim s = [] \<or> (\<not> is_ws (hd (trim s)) \<and> \<not> is_ws (last (trim s)))"
proof (cases "trim s = []")
  case True
  then show ?thesis by simp
next
  case False
  let ?t = "dropWhile is_ws s"
  let ?u = "dropWhile is_ws (rev ?t)"
  have u: "?u \<noteq> []" using False by (simp add: trim_def)
  have t: "?t \<noteq> []"
  proof
    assume e: "?t = []"
    have "?u = dropWhile is_ws (rev [])" by (simp only: e)
    with u show False by simp
  qed
  have "\<not> is_ws (hd ?u)" using u dropWhile_head [of is_ws "rev ?t"] by blast
  then have l: "\<not> is_ws (last (trim s))" using u by (simp add: trim_def last_rev)
  have "last ?u = last (rev ?t)" using u by (rule last_dropWhile_keep)
  also have "\<dots> = hd ?t" using t by (simp add: last_rev)
  finally have "hd (trim s) = hd ?t" using u by (simp add: trim_def hd_rev)
  moreover have "\<not> is_ws (hd ?t)" using t dropWhile_head [of is_ws s] by blast
  ultimately show ?thesis using l by simp
qed

lemma trim_fixed:
  assumes "s = [] \<or> (\<not> is_ws (hd s) \<and> \<not> is_ws (last s))"
  shows "trim s = s"
proof (cases "s = []")
  case True
  then show ?thesis by (simp add: trim_def)
next
  case False
  with assms have h: "\<not> is_ws (hd s)" and l: "\<not> is_ws (last s)" by auto
  have a: "dropWhile is_ws s = s" using h by (intro dropWhile_fixed) simp
  have "dropWhile is_ws (rev s) = rev s"
    using l False by (intro dropWhile_fixed) (simp add: hd_rev)
  with a show ?thesis by (simp add: trim_def)
qed

lemma trim_idem: "trim (trim s) = trim s"
  using trim_shape [of s] by (rule trim_fixed)

lemma trim_padded:
  assumes "\<And>x. x \<in> set pre \<Longrightarrow> is_ws x" and "\<And>x. x \<in> set post \<Longrightarrow> is_ws x"
  shows "trim (pre @ s @ post) = trim s"
proof -
  have a: "dropWhile is_ws (pre @ s @ post) = dropWhile is_ws (s @ post)"
    using assms(1) by (simp add: dropWhile_append2)
  have p: "dropWhile is_ws post = []" using assms(2) by simp
  have rp: "\<And>x. x \<in> set (rev post) \<Longrightarrow> is_ws x" using assms(2) by simp
  show ?thesis
  proof (cases "\<forall>x \<in> set s. is_ws x")
    case True
    have 1: "dropWhile is_ws (s @ post) = []"
      by (rule dropWhile_all) (use True assms(2) in auto)
    have 2: "dropWhile is_ws s = []"
      by (rule dropWhile_all) (use True in auto)
    show ?thesis by (simp only: trim_def a 1 2)
  next
    case False
    then obtain x where "x \<in> set s" "\<not> is_ws x" by blast
    then have 1: "dropWhile is_ws (s @ post) = dropWhile is_ws s @ post"
      by (rule dropWhile_append1)
    have 2: "dropWhile is_ws (rev post @ rev (dropWhile is_ws s)) =
             dropWhile is_ws (rev (dropWhile is_ws s))"
      by (rule dropWhile_append2) (rule rp)
    show ?thesis by (simp only: trim_def a 1 rev_append 2)
  qed
qed

lemma is_digit_not_ws: "is_digit x \<Longrightarrow> \<not> is_ws x"
  by (auto simp: is_digit_def is_ws_def)

lemma trim_digits: "list_all is_digit s \<Longrightarrow> trim s = s"
proof (rule trim_fixed)
  assume d: "list_all is_digit s"
  show "s = [] \<or> (\<not> is_ws (hd s) \<and> \<not> is_ws (last s))"
  proof (cases "s = []")
    case True then show ?thesis by simp
  next
    case False
    then have "hd s \<in> set s" "last s \<in> set s" by simp_all
    with d have "is_digit (hd s)" "is_digit (last s)" by (simp_all add: list_all_iff)
    then show ?thesis by (simp add: is_digit_not_ws)
  qed
qed

lemma trim_genOtp: "genOtp_draw r \<Longrightarrow> trim (genOtp r) = genOtp r"
  using genOtp_shape [of r] by (intro trim_digits) (simp add: genOtp_draw_def randomInt_range_def)

lemma genOtp_100123: "genOtp 100123 = ''100123''"
proof -
  have "nat_digits 100123 = ''100123''"
    by (subst nat_digits_six) (simp_all add: digit_char_def)
  then show ?thesis by (simp add: genOtp_def js_String_def)
qed

section \<open>C1: the generated code\<close>

text \<open>
  C1 says that the code is drawn from \<open>[0, 999999]\<close> and zero-padded, so that
  \<open>000123\<close> is a possible code. The handler's \<open>genOtp\<close> renders a draw of
  \<open>crypto.randomInt(100000, 999999)\<close> with \<open>String\<close> and pads nothing. C1 as amended:
  for every draw the generator can make, the code is a string of exactly six decimal
  digits whose first digit is not \<open>0\<close>.
\<close>

theorem genOtp_six_digits_no_leading_zero:
  "genOtp_draw r \<Longrightarrow>
     length (genOtp r) = 6 \<and> list_all is_digit (genOtp r) \<and> hd (genOtp r) \<noteq> CHR ''0''"
  using genOtp_shape [of r] by (simp add: genOtp_draw_def randomInt_range_def)

theorem genOtp_six_digits_no_leading_zero_witness:
  "genOtp_draw 100123 \<and> genOtp 100123 = ''100123'' \<and>
     length (genOtp 100123) = 6 \<and> list_all is_digit (genOtp 100123) \<and>
     hd (genOtp 100123) \<noteq> CHR ''0''"
proof -
  have d: "genOtp_draw 100123" by (simp add: genOtp_draw_def randomInt_range_def)
  from genOtp_six_digits_no_leading_zero [OF d] d genOtp_100123 show ?thesis by blast
qed

text \<open>C1 as stated fails: no draw of the generator yields the code \<open>000123\<close>.\<close>

theorem genOtp_leading_zero_counterexample:
  "\<not> (\<exists>r. genOtp_draw r \<and> genOtp r = ''000123'')"
proof
  assume "\<exists>r. genOtp_draw r \<and> genOtp r = ''000123''"
  then obtain r where r: "genOtp_draw r" and g: "genOtp r = ''000123''" by blast
  from r have "hd (genOtp r) \<noteq> CHR ''0''"
    using genOtp_shape [of r] by (simp add: genOtp_draw_def randomInt_range_def)
  with g show False by simp
qed

section \<open>Single calls of verify-otp\<close>

lemma verify_wrong_code:
  assumes "fetch_result env = Ok" and "select_latest c (otp_records st) = Some r"
    and "\<not> consumed r" and "verify_now env \<le> expires_at r" and "attempts r < MAX_OTP_ATTEMPTS"
    and "hashOtp H secret (trim otp) (salt r) \<noteq> otp_hash r" and "attempts_result env = Ok"
  shows "verify_otp H secret env c otp st =
           (invalid_otp (MAX_OTP_ATTEMPTS - (attempts r + 1)),
            st\<lparr>otp_records := update_by_id (rec_id r) (\<lambda>x. x\<lparr>attempts := attempts r + 1\<rparr>) (otp_records st)\<rparr>)"
  using assms by (simp add: verify_otp_def)

lemma verify_right_code:
  assumes "fetch_result env = Ok" and "select_latest c (otp_records st) = Some r"
    and "\<not> consumed r" and "verify_now env \<le> expires_at r" and "attempts r < MAX_OTP_ATTEMPTS"
    and "hashOtp H secret (trim otp) (salt r) = otp_hash r" and "consume_result env = Ok"
  shows "verify_otp H secret env c otp st =
           (OtpVerified,
            st\<lparr>otp_records := update_by_id (rec_id r) (\<lambda>x. x\<lparr>consumed := True\<rparr>) (otp_records st)\<rparr>)"
  using assms by (simp add: verify_otp_def)

lemma verify_consumed:
  assumes "fetch_result env = Ok" and "select_latest c (otp_records st) = Some r" and "consumed r"
  shows "verify_otp H secret env c otp st = (otp_already_used, st)"
  using assms by (simp add: verify_otp_def)

lemma verify_expired:
  assumes "fetch_result env = Ok" and "select_latest c (otp_records st) = Some r"
    and "\<not> consumed r" and "expires_at r < verify_now env"
  shows "verify_otp H secret env c otp st = (otp_expired, st)"
  using assms by (simp add: verify_otp_def)

lemma verify_locked:
  assumes "fetch_result env = Ok" and "select_latest c (otp_records st) = Some r"
    and "\<not> consumed r" and "verify_now env \<le> expires_at r" and "MAX_OTP_ATTEMPTS \<le> attempts r"
  shows "verify_otp H secret env c otp st = (too_many_attempts, st)"
  using assms by (simp add: verify_otp_def)

lemma verify_not_found:
  assumes "fetch_result env = Ok" and "select_latest c (otp_records st) = None"
  shows "verify_otp H secret env c otp st = (otp_not_found, st)"
  using assms by (simp add: verify_otp_def)

lemma ex_latest: "select_latest ''a@x.com'' (otp_records ex_state) = Some ex_rec"
  by (simp add: ex_state_def ex_rec_def select_latest_def)

section \<open>Runs of wrong codes\<close>

lemma wrong_step:
  assumes "select_latest c (otp_records st) = Some r" and "\<not> consumed r"
    and "attempts r < MAX_OTP_ATTEMPTS" and "wrong_call H secret r (env, otp)"
  shows "fst (verify_otp H secret env c otp st) = invalid_otp (MAX_OTP_ATTEMPTS - (attempts r + 1))"
    and "select_latest c (otp_records (snd (verify_otp H secret env c otp st)))
           = Some (r\<lparr>attempts := attempts r + 1\<rparr>)"
proof -
  have v: "verify_otp H secret env c otp st =
      (invalid_otp (MAX_OTP_ATTEMPTS - (attempts r + 1)),
       st\<lparr>otp_records := update_by_id (rec_id r) (\<lambda>x. x\<lparr>attempts := attempts r + 1\<rparr>) (otp_records st)\<rparr>)"
    using assms by (intro verify_wrong_code) (simp_all add: wrong_call_def)
  show "fst (verify_otp H secret env c otp st) = invalid_otp (MAX_OTP_ATTEMPTS - (attempts r + 1))"
    by (simp add: v)
  have "select_latest c (update_by_id (rec_id r) (\<lambda>x. x\<lparr>attempts := attempts r + 1\<rparr>) (otp_records st))
      = Some (r\<lparr>attempts := attempts r + 1\<rparr>)"
    using assms(1) by (rule select_latest_update) simp_all
  then show "select_latest c (otp_records (snd (verify_otp H secret env c otp st)))
           = Some (r\<lparr>attempts := attempts r + 1\<rparr>)"
    by (simp add: v)
qed

lemma wrong_call_attempts: "wrong_call H secret (r\<lparr>attempts := a\<rparr>) call = wrong_call H secret r call"
  by (simp add: wrong_call_def)

lemma wrong_run:
  assumes "select_latest c (otp_records st) = Some r" and "\<not> consumed r"
    and "attempts r + int (length calls) \<le> MAX_OTP_ATTEMPTS"
    and "\<And>call. call \<in> set calls \<Longrightarrow> wrong_call H secret r call"
  shows "fst (verify_run H secret c calls st)
           = map (\<lambda>j. invalid_otp (MAX_OTP_ATTEMPTS - (attempts r + 1) - int j)) [0..<length calls]
       \<and> select_latest c (otp_records (snd (verify_run H secret c calls st)))
           = Some (r\<lparr>attempts := attempts r + int (length calls)\<rparr>)"
  using assms
proof (induction calls arbitrary: st r)
  case Nil
  then show ?case by simp
next
  case (Cons call calls)
  obtain env otp where call: "call = (env, otp)" by (cases call)
  let ?st1 = "snd (verify_otp H secret env c otp st)"
  let ?r1 = "r\<lparr>attempts := attempts r + 1\<rparr>"
  have lt: "attempts r < MAX_OTP_ATTEMPTS" using Cons.prems(3) by simp
  have w: "wrong_call H secret r (env, otp)" using Cons.prems(4) [of call] call by simp
  note s = wrong_step [OF Cons.prems(1) Cons.prems(2) lt w]
  have ih: "fst (verify_run H secret c calls ?st1)
           = map (\<lambda>j. invalid_otp (MAX_OTP_ATTEMPTS - (attempts ?r1 + 1) - int j)) [0..<length calls]
       \<and> select_latest c (otp_records (snd (verify_run H secret c calls ?st1)))
           = Some (?r1\<lparr>attempts := attempts ?r1 + int (length calls)\<rparr>)"
  proof (rule Cons.IH [OF s(2)])
    show "\<not> consumed ?r1" using Cons.prems(2) by simp
    show "attempts ?r1 + int (length calls) \<le> MAX_OTP_ATTEMPTS" using Cons.prems(3) by simp
    fix k assume "k \<in> set calls"
    then show "wrong_call H secret ?r1 k" using Cons.prems(4) [of k] by (simp add: wrong_call_attempts)
  qed
  have run: "verify_run H secret c (call # calls) st =
      (fst (verify_otp H secret env c otp st) # fst (verify_run H secret c calls ?st1),
       snd (verify_run H secret c calls ?st1))"
    by (simp add: call split_beta Let_def)
  show ?case
    unfolding run using ih s(1)
    by (simp add: map_upt_Suc algebra_simps del: upt_Suc)
qed

lemma ex_wrong_call: "wrong_call concat_mac ''devsecret'' ex_rec (ok_at 2000, ''000000'')"
  by (simp add: wrong_call_def ok_at_def ex_rec_def hashOtp_def concat_mac_def trim_def is_ws_def)

lemma ex_wrong_run:
  "fst (verify_run concat_mac ''devsecret'' ''a@x.com'' (replicate 5 (ok_at 2000, ''000000'')) ex_state)
     = [invalid_otp 4, invalid_otp 3, invalid_otp 2, invalid_otp 1, invalid_otp 0]"
proof -
  have "fst (verify_run concat_mac ''devsecret'' ''a@x.com'' (replicate 5 (ok_at 2000, ''000000'')) ex_state)
    = map (\<lambda>j. invalid_otp (MAX_OTP_ATTEMPTS - (attempts ex_rec + 1) - int j))
        [0..<length (replicate 5 (ok_at 2000, ''000000''))]"
    using wrong_run [OF ex_latest, of "replicate 5 (ok_at 2000, ''000000'')" concat_mac "''devsecret''"]
    by (simp add: ex_wrong_call) (simp add: ex_rec_def MAX_OTP_ATTEMPTS_def)
  also have "\<dots> = [invalid_otp 4, invalid_otp 3, invalid_otp 2, invalid_otp 1, invalid_otp 0]"
    by (simp add: ex_rec_def MAX_OTP_ATTEMPTS_def upt_rec)
  finally show ?thesis .
qed

section \<open>C2: the attempt cap\<close>

text \<open>
  C2 says that the fifth wrong code in a row is answered \<open>too_many_attempts\<close>. The
  handler tests \<open>rec.attempts >= MAX_OTP_ATTEMPTS\<close> before it compares, with the count
  read at the start of the call, so the fifth wrong code is still compared. C2 as
  amended: for the newest record of a contact, unconsumed and unexpired, each wrong-code
  call below the cap sets \<open>attempts\<close> one higher and answers \<open>invalid_otp\<close> with
  \<open>attemptsRemaining = cap - attempts\<close> (the new count); five wrong codes in a row on a
  fresh record are answered with 4, 3, 2, 1 and 0 attempts remaining; every call after
  that, while the record is unexpired, is answered \<open>too_many_attempts\<close> and changes
  nothing, whatever the code.
\<close>

theorem five_wrong_codes_then_locked:
  "(select_latest c (otp_records st) = Some r \<and> \<not> consumed r \<and> attempts r < MAX_OTP_ATTEMPTS \<and>
      wrong_call H secret r (env, otp) \<longrightarrow>
        fst (verify_otp H secret env c otp st) = invalid_otp (MAX_OTP_ATTEMPTS - (attempts r + 1)) \<and>
        select_latest c (otp_records (snd (verify_otp H secret env c otp st)))
          = Some (r\<lparr>attempts := attempts r + 1\<rparr>))
   \<and> (select_latest c (otp_records st) = Some r \<and> \<not> consumed r \<and> attempts r = 0 \<and>
      length calls = 5 \<and> (\<forall>call \<in> set calls. wrong_call H secret r call) \<and>
      fetch_result env' = Ok \<and> verify_now env' \<le> expires_at r \<longrightarrow>
        fst (verify_run H secret c calls st)
          = [invalid_otp 4, invalid_otp 3, invalid_otp 2, invalid_otp 1, invalid_otp 0] \<and>
        select_latest c (otp_records (snd (verify_run H secret c calls st)))
          = Some (r\<lparr>attempts := 5\<rparr>) \<and>
        verify_otp H secret env' c otp' (snd (verify_run H secret c calls st))
          = (too_many_attempts, snd (verify_run H secret c calls st)))"
proof (intro conjI impI)
  assume a: "select_latest c (otp_records st) = Some r \<and> \<not> consumed r \<and>
    attempts r < MAX_OTP_ATTEMPTS \<and> wrong_call H secret r (env, otp)"
  show "fst (verify_otp H secret env c otp st) = invalid_otp (MAX_OTP_ATTEMPTS - (attempts r + 1))"
    using a wrong_step(1) by blast
  show "select_latest c (otp_records (snd (verify_otp H secret env c otp st)))
          = Some (r\<lparr>attempts := attempts r + 1\<rparr>)"
    using a wrong_step(2) by blast
next
  assume a: "select_latest c (otp_records st) = Some r \<and> \<not> consumed r \<and> attempts r = 0 \<and>
      length calls = 5 \<and> (\<forall>call \<in> set calls. wrong_call H secret r call) \<and>
      fetch_result env' = Ok \<and> verify_now env' \<le> expires_at r"
  let ?st5 = "snd (verify_run H secret c calls st)"
  have run: "fst (verify_run H secret c calls st)
           = map (\<lambda>j. invalid_otp (MAX_OTP_ATTEMPTS - (attempts r + 1) - int j)) [0..<length calls]
       \<and> select_latest c (otp_records ?st5) = Some (r\<lparr>attempts := attempts r + int (length calls)\<rparr>)"
    using a by (intro wrong_run) (simp_all add: MAX_OTP_ATTEMPTS_def)
  show "fst (verify_run H secret c calls st)
          = [invalid_otp 4, invalid_otp 3, invalid_otp 2, invalid_otp 1, invalid_otp 0]"
    using run a by (simp add: MAX_OTP_ATTEMPTS_def upt_rec)
  show sel: "select_latest c (otp_records ?st5) = Some (r\<lparr>attempts := 5\<rparr>)"
    using run a by simp
  show "verify_otp H secret env' c otp' ?st5 = (too_many_attempts, ?st5)"
    using a by (intro verify_locked [OF _ sel]) (simp_all add: MAX_OTP_ATTEMPTS_def)
qed


theorem five_wrong_codes_then_locked_witness:
  "select_latest ''a@x.com'' (otp_records ex_state) = Some ex_rec \<and> \<not> consumed ex_rec \<and>
   attempts ex_rec = 0 \<and> attempts ex_rec < MAX_OTP_ATTEMPTS \<and>
   wrong_call concat_mac ''devsecret'' ex_rec (ok_at 2000, ''000000'') \<and>
   length (replicate 5 (ok_at 2000, ''000000'')) = 5 \<and>
   fetch_result (ok_at 3000) = Ok \<and> verify_now (ok_at 3000) \<le> expires_at ex_rec \<and>
   hashOtp concat_mac ''devsecret'' (trim ''100123'') (salt ex_rec) = otp_hash ex_rec \<and>
   fst (verify_otp concat_mac ''devsecret'' (ok_at 2000) ''a@x.com'' ''000000'' ex_state) = invalid_otp 4 \<and>
   fst (verify_run concat_mac ''devsecret'' ''a@x.com'' (replicate 5 (ok_at 2000, ''000000'')) ex_state)
     = [invalid_otp 4, invalid_otp 3, invalid_otp 2, invalid_otp 1, invalid_otp 0] \<and>
   verify_otp concat_mac ''devsecret'' (ok_at 3000) ''a@x.com'' ''100123''
       (snd (verify_run concat_mac ''devsecret'' ''a@x.com'' (replicate 5 (ok_at 2000, ''000000'')) ex_state))
     = (too_many_attempts,
        snd (verify_run concat_mac ''devsecret'' ''a@x.com'' (replicate 5 (ok_at 2000, ''000000'')) ex_state))"
proof -
  have h1: "\<not> consumed ex_rec" "attempts ex_rec = 0" "attempts ex_rec < MAX_OTP_ATTEMPTS"
    by (simp_all add: ex_rec_def MAX_OTP_ATTEMPTS_def)
  have h2: "length (replicate 5 (ok_at 2000, ''000000'')) = 5"
    "\<forall>call \<in> set (replicate 5 (ok_at 2000, ''000000'')). wrong_call concat_mac ''devsecret'' ex_rec call"
    by (simp_all add: ex_wrong_call)
  have h3: "fetch_result (ok_at 3000) = Ok" "verify_now (ok_at 3000) \<le> expires_at ex_rec"
    by (simp_all add: ok_at_def ex_rec_def)
  have h4: "hashOtp concat_mac ''devsecret'' (trim ''100123'') (salt ex_rec) = otp_hash ex_rec"
    by (simp add: ex_rec_def hashOtp_def concat_mac_def trim_def is_ws_def)
  have r: "MAX_OTP_ATTEMPTS - (attempts ex_rec + 1) = 4"
    by (simp add: ex_rec_def MAX_OTP_ATTEMPTS_def)
  note t = five_wrong_codes_then_locked [where c = "''a@x.com''" and st = ex_state and r = ex_rec
      and H = concat_mac and secret = "''devsecret''" and env = "ok_at 2000" and otp = "''000000''"
      and calls = "replicate 5 (ok_at 2000, ''000000'')" and env' = "ok_at 3000" and otp' = "''100123''"]
  show ?thesis
    using t ex_latest h1 h2 h3 h4 ex_wrong_call r by simp
qed

text \<open>C2 as stated fails: the fifth wrong code in a row on the fresh record of the example
  store is answered \<open>invalid_otp\<close> with no attempt remaining, not \<open>too_many_attempts\<close>.\<close>

theorem fifth_wrong_code_counterexample:
  "fst (verify_run concat_mac ''devsecret'' ''a@x.com'' (replicate 5 (ok_at 2000, ''000000'')) ex_state) ! 4
     = invalid_otp 0 \<and>
   fst (verify_run concat_mac ''devsecret'' ''a@x.com'' (replicate 5 (ok_at 2000, ''000000'')) ex_state) ! 4
     \<noteq> too_many_attempts"
  by (simp add: ex_wrong_run)

section \<open>C5: expiry comes before the attempt count\<close>

text \<open>
  C5: when the newest record of the contact is unconsumed and its \<open>expires_at\<close> is
  strictly before the time of the call, the handler answers \<open>otp_expired\<close> and leaves
  the store as it is, whatever the candidate code and whatever the attempt count: the
  expiry test stands before the attempt test and before the comparison.
\<close>

theorem expired_record_fails_expired:
  "fetch_result env = Ok \<Longrightarrow> select_latest c (otp_records st) = Some r \<Longrightarrow> \<not> consumed r \<Longrightarrow>
   expires_at r < verify_now env \<Longrightarrow>
     verify_otp H secret env c otp st = (otp_expired, st)"
  by (simp add: verify_otp_def)

text \<open>The witness: the record of the example store after five failed attempts, the correct
  code, 99 seconds after expiry.\<close>

theorem expired_record_fails_expired_witness:
  "fetch_result (ok_at 400000) = Ok \<and>
   select_latest ''a@x.com'' [ex_rec\<lparr>attempts := 5\<rparr>] = Some (ex_rec\<lparr>attempts := 5\<rparr>) \<and>
   \<not> consumed (ex_rec\<lparr>attempts := 5\<rparr>) \<and>
   expires_at (ex_rec\<lparr>attempts := 5\<rparr>) < verify_now (ok_at 400000) \<and>
   MAX_OTP_ATTEMPTS \<le> attempts (ex_rec\<lparr>attempts := 5\<rparr>) \<and>
   hashOtp concat_mac ''devsecret'' (trim ''100123'') (salt (ex_rec\<lparr>attempts := 5\<rparr>))
     = otp_hash (ex_rec\<lparr>attempts := 5\<rparr>) \<and>
   verify_otp concat_mac ''devsecret'' (ok_at 400000) ''a@x.com'' ''100123''
       (ex_state\<lparr>otp_records := [ex_rec\<lparr>attempts := 5\<rparr>]\<rparr>)
     = (otp_expired, ex_state\<lparr>otp_records := [ex_rec\<lparr>attempts := 5\<rparr>]\<rparr>)"
proof -
  have a: "fetch_result (ok_at 400000) = Ok" by (simp add: ok_at_def)
  have b: "select_latest ''a@x.com'' (otp_records (ex_state\<lparr>otp_records := [ex_rec\<lparr>attempts := 5\<rparr>]\<rparr>))
             = Some (ex_rec\<lparr>attempts := 5\<rparr>)"
    by (simp add: select_latest_def ex_rec_def)
  have c: "\<not> consumed (ex_rec\<lparr>attempts := 5\<rparr>)" by (simp add: ex_rec_def)
  have d: "expires_at (ex_rec\<lparr>attempts := 5\<rparr>) < verify_now (ok_at 400000)"
    by (simp add: ex_rec_def ok_at_def)
  have e: "MAX_OTP_ATTEMPTS \<le> attempts (ex_rec\<lparr>attempts := 5\<rparr>)"
    by (simp add: MAX_OTP_ATTEMPTS_def)
  have f: "hashOtp concat_mac ''devsecret'' (trim ''100123'') (salt (ex_rec\<lparr>attempts := 5\<rparr>))
     = otp_hash (ex_rec\<lparr>attempts := 5\<rparr>)"
    by (simp add: ex_rec_def hashOtp_def concat_mac_def trim_def is_ws_def)
  from expired_record_fails_expired [OF a b c d, of concat_mac "''devsecret''" "''100123''"]
  show ?thesis using a b c d e f by simp
qed

section \<open>What each handler does to the store\<close>

lemma verify_otp_cases:
  assumes "verify_otp H secret env c otp st = (resp, st')"
  shows "st' = st \<or>
    (\<exists>r. select_latest c (otp_records st) = Some r \<and> \<not> consumed r \<and>
         verify_now env \<le> expires_at r \<and> attempts r < MAX_OTP_ATTEMPTS \<and>
         ((hashOtp H secret (trim otp) (salt r) \<noteq> otp_hash r \<and>
           st' = st\<lparr>otp_records := update_by_id (rec_id r) (\<lambda>x. x\<lparr>attempts := attempts r + 1\<rparr>) (otp_records st)\<rparr>)
        \<or> (hashOtp H secret (trim otp) (salt r) = otp_hash r \<and> resp = OtpVerified \<and>
           st' = st\<lparr>otp_records := update_by_id (rec_id r) (\<lambda>x. x\<lparr>consumed := True\<rparr>) (otp_records st)\<rparr>)))"
  using assms by (auto simp: verify_otp_def Let_def split: option.splits if_splits)

lemma request_otp_cases:
  assumes "request_otp H secret env em st = (resp, st')"
  shows "users st' = users st \<and>
    (\<exists>tbl. (tbl = otp_records st \<or> tbl = delete_expired em (cleanup_now env) (otp_records st)) \<and>
      ((otp_records st' = tbl \<and> uuid_counter st' = uuid_counter st \<and> outbox st' = outbox st \<and>
          resp \<noteq> OtpSent (OTP_TTL_MS div 1000))
       \<or> (otp_records st' = tbl @ [new_row H secret env (uuid_counter st) em] \<and>
          uuid_counter st \<notin> set (map rec_id tbl) \<and> uuid_counter st' = Suc (uuid_counter st))))"
  using assms by (auto simp: request_otp_def Let_def split: if_splits)

lemma set_delete_expired: "set (delete_expired c now tbl) \<subseteq> set tbl"
  by (auto simp: delete_expired_def)

lemma distinct_delete_expired:
  "distinct (map rec_id tbl) \<Longrightarrow> distinct (map rec_id (delete_expired c now tbl))"
  by (simp add: delete_expired_def distinct_map_filter)

lemma rec_id_new_row [simp]: "rec_id (new_row H secret env i em) = i"
  by (simp add: new_row_def)

lemma map_rec_id_update:
  "(\<And>x. rec_id (f x) = rec_id x) \<Longrightarrow> map rec_id (update_by_id i f tbl) = map rec_id tbl"
  by (simp add: update_by_id_def)

lemma same_id_same_row:
  "distinct (map rec_id tbl) \<Longrightarrow> x \<in> set tbl \<Longrightarrow> y \<in> set tbl \<Longrightarrow> rec_id x = rec_id y \<Longrightarrow> x = y"
  by (meson distinct_map inj_onD)

lemma request_otp_store_ok:
  assumes ok: "store_ok st" and h: "request_otp H secret env em st = (resp, st')"
  shows "store_ok st'"
proof -
  from request_otp_cases [OF h] obtain tbl where
    u: "users st' = users st" and
    t: "tbl = otp_records st \<or> tbl = delete_expired em (cleanup_now env) (otp_records st)" and
    c: "(otp_records st' = tbl \<and> uuid_counter st' = uuid_counter st)
       \<or> (otp_records st' = tbl @ [new_row H secret env (uuid_counter st) em] \<and>
          uuid_counter st \<notin> set (map rec_id tbl) \<and> uuid_counter st' = Suc (uuid_counter st))"
    by blast
  have d: "distinct (map rec_id tbl)"
    using t ok distinct_delete_expired by (auto simp: store_ok_def)
  have "set tbl \<subseteq> set (otp_records st)"
    using t set_delete_expired [of em "cleanup_now env" "otp_records st"] by auto
  then have b: "\<forall>r \<in> set tbl. rec_id r < uuid_counter st"
    using ok by (auto simp: store_ok_def)
  from c show ?thesis
  proof
    assume "otp_records st' = tbl \<and> uuid_counter st' = uuid_counter st"
    then show ?thesis using ok u d b by (simp add: store_ok_def)
  next
    assume a: "otp_records st' = tbl @ [new_row H secret env (uuid_counter st) em] \<and>
          uuid_counter st \<notin> set (map rec_id tbl) \<and> uuid_counter st' = Suc (uuid_counter st)"
    have "\<forall>u \<in> set (users st). u_id u < Suc (uuid_counter st)"
      using ok by (auto simp: store_ok_def less_Suc_eq)
    moreover have "\<forall>r \<in> set tbl. rec_id r < Suc (uuid_counter st)"
      using b by (auto simp: less_Suc_eq)
    ultimately show ?thesis using a ok u d by (simp add: store_ok_def)
  qed
qed

lemma ids_bound_iff: "(\<forall>r \<in> set tbl. rec_id r < n) = (\<forall>i \<in> set (map rec_id tbl). i < n)"
  by auto

lemma verify_otp_frame:
  assumes h: "verify_otp H secret env c otp st = (resp, st')"
  shows "map rec_id (otp_records st') = map rec_id (otp_records st) \<and> users st' = users st \<and>
         uuid_counter st' = uuid_counter st \<and> outbox st' = outbox st"
  using verify_otp_cases [OF h]
  by (elim disjE exE conjE) (simp_all add: map_rec_id_update)

lemma verify_otp_store_ok:
  assumes ok: "store_ok st" and h: "verify_otp H secret env c otp st = (resp, st')"
  shows "store_ok st'"
  using ok verify_otp_frame [OF h] unfolding store_ok_def ids_bound_iff by simp

lemma signup_cases:
  assumes "signup env em nm ph ag st = (resp, st')"
  shows "otp_records st' = otp_records st \<and> outbox st' = outbox st \<and>
    (st' = st \<or>
     (\<exists>u. resp = UserCreated u \<and> u_id u = uuid_counter st \<and> u_email u = toLowerCase em \<and>
          users st' = users st @ [u] \<and> uuid_counter st' = Suc (uuid_counter st) \<and>
          toLowerCase em \<notin> set (map u_email (users st)) \<and>
          uuid_counter st \<notin> set (map u_id (users st))))"
  using assms by (auto simp: signup_def Let_def split: if_splits)

lemma signup_store_ok:
  assumes ok: "store_ok st" and h: "signup env em nm ph ag st = (resp, st')"
  shows "store_ok st'"
proof -
  from signup_cases [OF h] have o: "otp_records st' = otp_records st"
    and c: "st' = st \<or>
     (\<exists>u. u_id u = uuid_counter st \<and> u_email u = toLowerCase em \<and>
          users st' = users st @ [u] \<and> uuid_counter st' = Suc (uuid_counter st) \<and>
          toLowerCase em \<notin> set (map u_email (users st)) \<and>
          uuid_counter st \<notin> set (map u_id (users st)))"
    by blast+
  from c show ?thesis
  proof
    assume "st' = st" with ok show ?thesis by simp
  next
    assume "\<exists>u. u_id u = uuid_counter st \<and> u_email u = toLowerCase em \<and>
          users st' = users st @ [u] \<and> uuid_counter st' = Suc (uuid_counter st) \<and>
          toLowerCase em \<notin> set (map u_email (users st)) \<and>
          uuid_counter st \<notin> set (map u_id (users st))"
    then obtain u where u: "u_id u = uuid_counter st" "u_email u = toLowerCase em"
      "users st' = users st @ [u]" "uuid_counter st' = Suc (uuid_counter st)"
      "toLowerCase em \<notin> set (map u_email (users st))"
      "uuid_counter st \<notin> set (map u_id (users st))" by blast
    have "\<forall>r \<in> set (otp_records st). rec_id r < Suc (uuid_counter st)"
      using ok by (auto simp: store_ok_def less_Suc_eq)
    moreover have "\<forall>x \<in> set (users st). u_id x < Suc (uuid_counter st)"
      using ok by (auto simp: store_ok_def less_Suc_eq)
    ultimately show ?thesis using ok o u by (simp add: store_ok_def)
  qed
qed

lemma handle_store_ok:
  "store_ok st \<Longrightarrow> handle H secret req st = (resp, st') \<Longrightarrow> store_ok st'"
  by (cases req) (auto intro: request_otp_store_ok verify_otp_store_ok signup_store_ok)

section \<open>The consumed flag along the transitions\<close>

lemma update_by_id_mem:
  assumes "y \<in> set (update_by_id i f tbl)"
  shows "\<exists>x \<in> set tbl. y = (if rec_id x = i then f x else x)"
  using assms by (auto simp: update_by_id_def)

lemma verify_otp_consumed:
  assumes ok: "store_ok st" and h: "verify_otp H secret env c otp st = (resp, st')"
    and r: "r \<in> set (otp_records st)" and r': "r' \<in> set (otp_records st')"
    and i: "rec_id r' = rec_id r"
  shows "(consumed r \<longrightarrow> consumed r') \<and>
    (\<not> consumed r \<and> consumed r' \<longrightarrow>
       resp = OtpVerified \<and> select_latest c (otp_records st) = Some r \<and>
       hashOtp H secret (trim otp) (salt r) = otp_hash r \<and>
       verify_now env \<le> expires_at r \<and> attempts r < MAX_OTP_ATTEMPTS)"
proof -
  have d: "distinct (map rec_id (otp_records st))" using ok by (simp add: store_ok_def)
  from verify_otp_cases [OF h] consider
    (same) "st' = st"
  | (wrong) k where "select_latest c (otp_records st) = Some k"
      "st' = st\<lparr>otp_records := update_by_id (rec_id k) (\<lambda>x. x\<lparr>attempts := attempts k + 1\<rparr>) (otp_records st)\<rparr>"
  | (right) k where "select_latest c (otp_records st) = Some k" "\<not> consumed k"
      "verify_now env \<le> expires_at k" "attempts k < MAX_OTP_ATTEMPTS"
      "hashOtp H secret (trim otp) (salt k) = otp_hash k" "resp = OtpVerified"
      "st' = st\<lparr>otp_records := update_by_id (rec_id k) (\<lambda>x. x\<lparr>consumed := True\<rparr>) (otp_records st)\<rparr>"
    by blast
  then show ?thesis
  proof cases
    case same
    with r r' i d have "r' = r" using same_id_same_row by blast
    then show ?thesis by simp
  next
    case (wrong k)
    from r' wrong(2) obtain x where x: "x \<in> set (otp_records st)"
      and y: "r' = (if rec_id x = rec_id k then x\<lparr>attempts := attempts k + 1\<rparr> else x)"
      using update_by_id_mem [of r' "rec_id k" _ "otp_records st"] by auto
    from y have "rec_id r' = rec_id x" by (simp split: if_splits)
    with i have "x = r" using same_id_same_row [OF d x r] by simp
    with y show ?thesis by (simp split: if_splits)
  next
    case (right k)
    from r' right(7) obtain x where x: "x \<in> set (otp_records st)"
      and y: "r' = (if rec_id x = rec_id k then x\<lparr>consumed := True\<rparr> else x)"
      using update_by_id_mem [of r' "rec_id k" _ "otp_records st"] by auto
    from y have "rec_id r' = rec_id x" by (simp split: if_splits)
    with i have xr: "x = r" using same_id_same_row [OF d x r] by simp
    have k: "k \<in> set (otp_records st)" using right(1) select_latest_mem by blast
    show ?thesis
    proof (cases "rec_id r = rec_id k")
      case True
      then have "r = k" using same_id_same_row [OF d r k] by simp
      with right y xr show ?thesis by simp
    next
      case False
      with y xr show ?thesis by simp
    qed
  qed
qed

lemma request_otp_consumed:
  assumes ok: "store_ok st" and h: "request_otp H secret env em st = (resp, st')"
    and r: "r \<in> set (otp_records st)" and r': "r' \<in> set (otp_records st')"
    and i: "rec_id r' = rec_id r"
  shows "r' = r"
proof -
  have d: "distinct (map rec_id (otp_records st))" using ok by (simp add: store_ok_def)
  have b: "rec_id r < uuid_counter st" using ok r by (simp add: store_ok_def)
  from request_otp_cases [OF h] obtain tbl where
    t: "tbl = otp_records st \<or> tbl = delete_expired em (cleanup_now env) (otp_records st)" and
    c: "otp_records st' = tbl \<or> otp_records st' = tbl @ [new_row H secret env (uuid_counter st) em]"
    by blast
  have sub: "set tbl \<subseteq> set (otp_records st)"
    using t set_delete_expired [of em "cleanup_now env" "otp_records st"] by auto
  have "r' \<in> set tbl"
  proof (rule ccontr)
    assume n: "r' \<notin> set tbl"
    with c r' have "r' = new_row H secret env (uuid_counter st) em" by auto
    then have "rec_id r' = uuid_counter st" by simp
    with i b show False by simp
  qed
  with sub have "r' \<in> set (otp_records st)" by blast
  then show ?thesis using same_id_same_row [OF d _ r i] by simp
qed

lemma handle_consumed:
  assumes ok: "store_ok st" and h: "handle H secret req st = (resp, st')"
    and r: "r \<in> set (otp_records st)" and r': "r' \<in> set (otp_records st')"
    and i: "rec_id r' = rec_id r"
  shows "(consumed r \<longrightarrow> consumed r') \<and>
    (\<not> consumed r \<and> consumed r' \<longrightarrow>
       (\<exists>env c otp. req = VerifyOtp env c otp \<and> resp = OtpVerified \<and>
          select_latest c (otp_records st) = Some r \<and>
          hashOtp H secret (trim otp) (salt r) = otp_hash r \<and>
          verify_now env \<le> expires_at r \<and> attempts r < MAX_OTP_ATTEMPTS))"
proof (cases req)
  case (RequestOtp env em)
  with h have "request_otp H secret env em st = (resp, st')" by simp
  from request_otp_consumed [OF ok this r r' i] show ?thesis by simp
next
  case (VerifyOtp env c otp)
  with h have "verify_otp H secret env c otp st = (resp, st')" by simp
  from verify_otp_consumed [OF ok this r r' i] VerifyOtp show ?thesis by simp
next
  case (Signup env em nm ph ag)
  with h have "signup env em nm ph ag st = (resp, st')" by simp
  from signup_cases [OF this] have "otp_records st' = otp_records st" by simp
  with r r' i ok have "r' = r" using same_id_same_row by (auto simp: store_ok_def)
  then show ?thesis by simp
qed

lemma handle_absent_id:
  assumes ok: "store_ok st" and h: "handle H secret req st = (resp, st')"
    and b: "i < uuid_counter st" and a: "i \<notin> set (map rec_id (otp_records st))"
  shows "i < uuid_counter st' \<and> i \<notin> set (map rec_id (otp_records st'))"
proof (cases req)
  case (RequestOtp env em)
  with h have "request_otp H secret env em st = (resp, st')" by simp
  from request_otp_cases [OF this] obtain tbl where
    t: "tbl = otp_records st \<or> tbl = delete_expired em (cleanup_now env) (otp_records st)" and
    c: "(otp_records st' = tbl \<and> uuid_counter st' = uuid_counter st)
       \<or> (otp_records st' = tbl @ [new_row H secret env (uuid_counter st) em] \<and>
           uuid_counter st' = Suc (uuid_counter st))"
    by blast
  have "set tbl \<subseteq> set (otp_records st)"
    using t set_delete_expired [of em "cleanup_now env" "otp_records st"] by auto
  then have "i \<notin> set (map rec_id tbl)" using a by auto
  with c b show ?thesis by auto
next
  case (VerifyOtp env c otp)
  with h have "verify_otp H secret env c otp st = (resp, st')" by simp
  from verify_otp_frame [OF this] a b show ?thesis by simp
next
  case (Signup env em nm ph ag)
  with h have "signup env em nm ph ag st = (resp, st')" by simp
  from signup_cases [OF this] a b show ?thesis by auto
qed

lemma handle_counter_mono:
  assumes h: "handle H secret req st = (resp, st')"
  shows "uuid_counter st \<le> uuid_counter st'"
proof (cases req)
  case (RequestOtp env em)
  with h have "request_otp H secret env em st = (resp, st')" by simp
  from request_otp_cases [OF this] show ?thesis by auto
next
  case (VerifyOtp env c otp)
  with h have "verify_otp H secret env c otp st = (resp, st')" by simp
  from verify_otp_frame [OF this] show ?thesis by simp
next
  case (Signup env em nm ph ag)
  with h have "signup env em nm ph ag st = (resp, st')" by simp
  from signup_cases [OF this] show ?thesis by auto
qed

lemma engine_run_store_ok: "store_ok st \<Longrightarrow> store_ok (engine_run H secret reqs st)"
proof (induction reqs arbitrary: st)
  case Nil
  then show ?case by simp
next
  case (Cons req reqs)
  have "store_ok (snd (handle H secret req st))"
    using Cons.prems handle_store_ok [of st H secret req] by (metis prod.collapse)
  then show ?case using Cons.IH by simp
qed

lemma engine_run_absent_id:
  "store_ok st \<Longrightarrow> i < uuid_counter st \<Longrightarrow> i \<notin> set (map rec_id (otp_records st)) \<Longrightarrow>
     i \<notin> set (map rec_id (otp_records (engine_run H secret reqs st)))"
proof (induction reqs arbitrary: st)
  case Nil
  then show ?case by simp
next
  case (Cons req reqs)
  let ?st1 = "snd (handle H secret req st)"
  have h: "handle H secret req st = (fst (handle H secret req st), ?st1)" by simp
  have "store_ok ?st1" using Cons.prems(1) handle_store_ok [OF _ h] by blast
  moreover have "i < uuid_counter ?st1 \<and> i \<notin> set (map rec_id (otp_records ?st1))"
    using handle_absent_id [OF Cons.prems(1) h Cons.prems(2) Cons.prems(3)] .
  ultimately show ?case using Cons.IH [of ?st1] by simp
qed

lemma engine_run_consumed:
  "store_ok st \<Longrightarrow> r \<in> set (otp_records st) \<Longrightarrow> consumed r \<Longrightarrow>
   r' \<in> set (otp_records (engine_run H secret reqs st)) \<Longrightarrow> rec_id r' = rec_id r \<Longrightarrow> consumed r'"
proof (induction reqs arbitrary: st r)
  case Nil
  then have "r' = r" using same_id_same_row [of "otp_records st" r' r] by (simp add: store_ok_def)
  with Nil show ?case by simp
next
  case (Cons req reqs)
  let ?st1 = "snd (handle H secret req st)"
  have h: "handle H secret req st = (fst (handle H secret req st), ?st1)" by simp
  have ok1: "store_ok ?st1" using Cons.prems(1) handle_store_ok [OF _ h] by blast
  have r': "r' \<in> set (otp_records (engine_run H secret reqs ?st1))" using Cons.prems(4) by simp
  show ?case
  proof (cases "rec_id r \<in> set (map rec_id (otp_records ?st1))")
    case True
    then obtain r1 where r1: "r1 \<in> set (otp_records ?st1)" "rec_id r1 = rec_id r" by auto
    have "consumed r1"
      using handle_consumed [OF Cons.prems(1) h Cons.prems(2) r1(1) r1(2)] Cons.prems(3) by simp
    then show ?thesis using Cons.IH [OF ok1 r1(1) _ r'] Cons.prems(5) r1(2) by simp
  next
    case False
    have "rec_id r < uuid_counter st" using Cons.prems(1,2) by (simp add: store_ok_def)
    then have "rec_id r < uuid_counter ?st1"
      using handle_counter_mono [OF h] by simp
    then have "rec_id r \<notin> set (map rec_id (otp_records (engine_run H secret reqs ?st1)))"
      using engine_run_absent_id [OF ok1 _ False] by simp
    moreover have "rec_id r' \<in> set (map rec_id (otp_records (engine_run H secret reqs ?st1)))"
      using r' by simp
    ultimately show ?thesis using Cons.prems(5) by simp
  qed
qed

section \<open>C3: single consumption\<close>

lemma ex_store_ok: "store_ok ex_state" "store_ok ex_used"
  by (simp_all add: store_ok_def ex_state_def ex_used_def ex_rec_def)

lemma ex_code_ok: "hashOtp concat_mac ''devsecret'' (trim ''100123'') (salt ex_rec) = otp_hash ex_rec"
  by (simp add: ex_rec_def hashOtp_def concat_mac_def trim_def is_ws_def)

lemma ex_verify_ok:
  "verify_otp concat_mac ''devsecret'' (ok_at 2000) ''a@x.com'' ''100123'' ex_state = (OtpVerified, ex_used)"
proof -
  have "verify_otp concat_mac ''devsecret'' (ok_at 2000) ''a@x.com'' ''100123'' ex_state
    = (OtpVerified, ex_state\<lparr>otp_records :=
         update_by_id (rec_id ex_rec) (\<lambda>x. x\<lparr>consumed := True\<rparr>) (otp_records ex_state)\<rparr>)"
    by (rule verify_right_code [OF _ ex_latest])
       (simp_all add: ex_code_ok, simp_all add: ok_at_def ex_rec_def MAX_OTP_ATTEMPTS_def)
  then show ?thesis by (simp add: update_by_id_def ex_state_def ex_used_def)
qed

lemma ex_used_latest: "select_latest ''a@x.com'' (otp_records ex_used) = Some (ex_rec\<lparr>consumed := True\<rparr>)"
  by (simp add: ex_used_def ex_rec_def select_latest_def)

lemma ex_verify_again:
  "verify_otp concat_mac ''devsecret'' (ok_at 3000) ''a@x.com'' ''100123'' ex_used = (otp_already_used, ex_used)"
  by (rule verify_consumed [OF _ ex_used_latest]) (simp_all add: ok_at_def)

text \<open>
  C3: (1) for the newest record of a contact, unconsumed, unexpired and under the attempt
  cap, a call with the correct code succeeds and sets \<open>consumed\<close>, and the next call
  (with any code) fails \<open>otp_already_used\<close> and changes nothing. (2) Over any request to
  the engine, a record that is consumed stays consumed, and a record changes from
  unconsumed to consumed only when the request is a \<open>verify-otp\<close> answered with success,
  for which this record is the newest of the contact, the code hashes to its stored hash,
  it is not expired and its attempts are under the cap. (3) Over any sequence of
  requests, a consumed record is never found unconsumed again. The store satisfies the
  constraints of its schema, and the queries of the two calls in (1) succeed.
\<close>

theorem single_consumption:
  "(fetch_result e1 = Ok \<and> consume_result e1 = Ok \<and> fetch_result e2 = Ok \<and>
    select_latest c (otp_records st) = Some r \<and> \<not> consumed r \<and>
    verify_now e1 \<le> expires_at r \<and> attempts r < MAX_OTP_ATTEMPTS \<and>
    hashOtp H secret (trim otp) (salt r) = otp_hash r \<longrightarrow>
      fst (verify_otp H secret e1 c otp st) = OtpVerified \<and>
      select_latest c (otp_records (snd (verify_otp H secret e1 c otp st)))
        = Some (r\<lparr>consumed := True\<rparr>) \<and>
      verify_otp H secret e2 c otp2 (snd (verify_otp H secret e1 c otp st))
        = (otp_already_used, snd (verify_otp H secret e1 c otp st)))
   \<and> (store_ok sa \<and> handle H secret req sa = (resp, sb) \<and>
      ra \<in> set (otp_records sa) \<and> rb \<in> set (otp_records sb) \<and> rec_id rb = rec_id ra \<longrightarrow>
        store_ok sb \<and> (consumed ra \<longrightarrow> consumed rb) \<and>
        (\<not> consumed ra \<and> consumed rb \<longrightarrow>
           (\<exists>env k cand. req = VerifyOtp env k cand \<and> resp = OtpVerified \<and>
              select_latest k (otp_records sa) = Some ra \<and>
              hashOtp H secret (trim cand) (salt ra) = otp_hash ra \<and>
              verify_now env \<le> expires_at ra \<and> attempts ra < MAX_OTP_ATTEMPTS)))
   \<and> (store_ok sc \<and> rc \<in> set (otp_records sc) \<and> consumed rc \<and>
      rd \<in> set (otp_records (engine_run H secret reqs sc)) \<and> rec_id rd = rec_id rc \<longrightarrow>
        consumed rd)"
proof (intro conjI impI)
  assume a: "fetch_result e1 = Ok \<and> consume_result e1 = Ok \<and> fetch_result e2 = Ok \<and>
    select_latest c (otp_records st) = Some r \<and> \<not> consumed r \<and>
    verify_now e1 \<le> expires_at r \<and> attempts r < MAX_OTP_ATTEMPTS \<and>
    hashOtp H secret (trim otp) (salt r) = otp_hash r"
  let ?st1 = "st\<lparr>otp_records := update_by_id (rec_id r) (\<lambda>x. x\<lparr>consumed := True\<rparr>) (otp_records st)\<rparr>"
  have v: "verify_otp H secret e1 c otp st = (OtpVerified, ?st1)"
    using a by (intro verify_right_code) simp_all
  show "fst (verify_otp H secret e1 c otp st) = OtpVerified" by (simp add: v)
  have "select_latest c (update_by_id (rec_id r) (\<lambda>x. x\<lparr>consumed := True\<rparr>) (otp_records st))
      = Some (r\<lparr>consumed := True\<rparr>)"
    using a by (intro select_latest_update) simp_all
  then show sel: "select_latest c (otp_records (snd (verify_otp H secret e1 c otp st)))
        = Some (r\<lparr>consumed := True\<rparr>)" by (simp add: v)
  show "verify_otp H secret e2 c otp2 (snd (verify_otp H secret e1 c otp st))
        = (otp_already_used, snd (verify_otp H secret e1 c otp st))"
    using a by (intro verify_consumed [OF _ sel]) simp_all
next
  assume a: "store_ok sa \<and> handle H secret req sa = (resp, sb) \<and>
      ra \<in> set (otp_records sa) \<and> rb \<in> set (otp_records sb) \<and> rec_id rb = rec_id ra"
  show "store_ok sb" using a handle_store_ok by blast
  have hc: "(consumed ra \<longrightarrow> consumed rb) \<and>
    (\<not> consumed ra \<and> consumed rb \<longrightarrow>
       (\<exists>env k cand. req = VerifyOtp env k cand \<and> resp = OtpVerified \<and>
          select_latest k (otp_records sa) = Some ra \<and>
          hashOtp H secret (trim cand) (salt ra) = otp_hash ra \<and>
          verify_now env \<le> expires_at ra \<and> attempts ra < MAX_OTP_ATTEMPTS))"
    using a handle_consumed [of sa H secret req resp sb ra rb] by blast
  { assume "consumed ra" then show "consumed rb" using hc by blast }
  { assume "\<not> consumed ra \<and> consumed rb"
    then show "\<exists>env k cand. req = VerifyOtp env k cand \<and> resp = OtpVerified \<and>
              select_latest k (otp_records sa) = Some ra \<and>
              hashOtp H secret (trim cand) (salt ra) = otp_hash ra \<and>
              verify_now env \<le> expires_at ra \<and> attempts ra < MAX_OTP_ATTEMPTS"
      using hc by blast }
next
  assume "store_ok sc \<and> rc \<in> set (otp_records sc) \<and> consumed rc \<and>
      rd \<in> set (otp_records (engine_run H secret reqs sc)) \<and> rec_id rd = rec_id rc"
  then show "consumed rd" using engine_run_consumed by blast
qed


text \<open>The witness: the example store, its record verified at 2000 ms with the correct code
  and tried again at 3000 ms.\<close>

theorem single_consumption_witness:
  "fetch_result (ok_at 2000) = Ok \<and> consume_result (ok_at 2000) = Ok \<and> fetch_result (ok_at 3000) = Ok \<and>
   select_latest ''a@x.com'' (otp_records ex_state) = Some ex_rec \<and> \<not> consumed ex_rec \<and>
   verify_now (ok_at 2000) \<le> expires_at ex_rec \<and> attempts ex_rec < MAX_OTP_ATTEMPTS \<and>
   hashOtp concat_mac ''devsecret'' (trim ''100123'') (salt ex_rec) = otp_hash ex_rec \<and>
   verify_otp concat_mac ''devsecret'' (ok_at 2000) ''a@x.com'' ''100123'' ex_state = (OtpVerified, ex_used) \<and>
   select_latest ''a@x.com'' (otp_records ex_used) = Some (ex_rec\<lparr>consumed := True\<rparr>) \<and>
   verify_otp concat_mac ''devsecret'' (ok_at 3000) ''a@x.com'' ''100123'' ex_used = (otp_already_used, ex_used) \<and>
   store_ok ex_state \<and>
   handle concat_mac ''devsecret'' (VerifyOtp (ok_at 2000) ''a@x.com'' ''100123'') ex_state = (OtpVerified, ex_used) \<and>
   ex_rec \<in> set (otp_records ex_state) \<and> ex_rec\<lparr>consumed := True\<rparr> \<in> set (otp_records ex_used) \<and>
   rec_id (ex_rec\<lparr>consumed := True\<rparr>) = rec_id ex_rec \<and>
   store_ok ex_used \<and> consumed (ex_rec\<lparr>consumed := True\<rparr>) \<and>
   engine_run concat_mac ''devsecret'' [VerifyOtp (ok_at 3000) ''a@x.com'' ''100123''] ex_used = ex_used"
proof -
  have p1: "fetch_result (ok_at 2000) = Ok \<and> consume_result (ok_at 2000) = Ok \<and> fetch_result (ok_at 3000) = Ok \<and>
    select_latest ''a@x.com'' (otp_records ex_state) = Some ex_rec \<and> \<not> consumed ex_rec \<and>
    verify_now (ok_at 2000) \<le> expires_at ex_rec \<and> attempts ex_rec < MAX_OTP_ATTEMPTS \<and>
    hashOtp concat_mac ''devsecret'' (trim ''100123'') (salt ex_rec) = otp_hash ex_rec"
    using ex_latest ex_code_ok by (simp add: ok_at_def ex_rec_def MAX_OTP_ATTEMPTS_def)
  have p2: "store_ok ex_state \<and>
    handle concat_mac ''devsecret'' (VerifyOtp (ok_at 2000) ''a@x.com'' ''100123'') ex_state = (OtpVerified, ex_used) \<and>
    ex_rec \<in> set (otp_records ex_state) \<and> ex_rec\<lparr>consumed := True\<rparr> \<in> set (otp_records ex_used) \<and>
    rec_id (ex_rec\<lparr>consumed := True\<rparr>) = rec_id ex_rec"
    using ex_store_ok ex_verify_ok by (simp add: ex_state_def ex_used_def)
  have run: "engine_run concat_mac ''devsecret'' [VerifyOtp (ok_at 3000) ''a@x.com'' ''100123''] ex_used = ex_used"
    by (simp add: ex_verify_again)
  have p3: "store_ok ex_used \<and> ex_rec\<lparr>consumed := True\<rparr> \<in> set (otp_records ex_used) \<and>
    consumed (ex_rec\<lparr>consumed := True\<rparr>) \<and>
    ex_rec\<lparr>consumed := True\<rparr>
      \<in> set (otp_records (engine_run concat_mac ''devsecret'' [VerifyOtp (ok_at 3000) ''a@x.com'' ''100123''] ex_used)) \<and>
    rec_id (ex_rec\<lparr>consumed := True\<rparr>) = rec_id (ex_rec\<lparr>consumed := True\<rparr>)"
  proof -
    have "ex_rec\<lparr>consumed := True\<rparr> \<in> set (otp_records ex_used)" by (simp add: ex_used_def)
    then show ?thesis using ex_store_ok by (simp add: ex_verify_again)
  qed
  note t = single_consumption [where H = concat_mac and secret = "''devsecret''"
      and ?e1.0 = "ok_at 2000" and ?e2.0 = "ok_at 3000" and c = "''a@x.com''" and st = ex_state
      and r = ex_rec and otp = "''100123''" and ?otp2.0 = "''100123''"
      and sa = ex_state and req = "VerifyOtp (ok_at 2000) ''a@x.com'' ''100123''" and resp = OtpVerified
      and sb = ex_used and ra = ex_rec and rb = "ex_rec\<lparr>consumed := True\<rparr>"
      and sc = ex_used and rc = "ex_rec\<lparr>consumed := True\<rparr>"
      and reqs = "[VerifyOtp (ok_at 3000) ''a@x.com'' ''100123'']" and rd = "ex_rec\<lparr>consumed := True\<rparr>"]
  from t p1 have c1: "verify_otp concat_mac ''devsecret'' (ok_at 3000) ''a@x.com'' ''100123''
        (snd (verify_otp concat_mac ''devsecret'' (ok_at 2000) ''a@x.com'' ''100123'' ex_state))
        = (otp_already_used, snd (verify_otp concat_mac ''devsecret'' (ok_at 2000) ''a@x.com'' ''100123'' ex_state))"
    by blast
  from t p2 have c2: "store_ok ex_used" by blast
  from t p3 have c3: "consumed (ex_rec\<lparr>consumed := True\<rparr>)" by blast
  show ?thesis
    using p1 p2 c1 c2 c3 run ex_verify_ok ex_used_latest by simp
qed

section \<open>Issuing a code\<close>

lemma request_otp_sent:
  assumes "request_otp H secret env em st = (OtpSent n, st')"
  shows "\<exists>tbl. (tbl = otp_records st \<or> tbl = delete_expired em (cleanup_now env) (otp_records st)) \<and>
           otp_records st' = tbl @ [new_row H secret env (uuid_counter st) em] \<and>
           outbox st' = outbox st @ [(em, genOtp (draw env))] \<and> n = OTP_TTL_MS div 1000 \<and>
           email_sent env \<and> insert_result env = Ok"
  using assms by (auto simp: request_otp_def Let_def split: if_splits) (cases "insert_result env"; simp)+

lemma request_otp_latest:
  assumes h: "request_otp H secret env em st = (OtpSent n, st')"
    and later: "\<And>x. x \<in> set (otp_records st) \<Longrightarrow> contact x = em \<Longrightarrow> created_at x < created_now env"
  shows "select_latest em (otp_records st') = Some (new_row H secret env (uuid_counter st) em)"
proof -
  from request_otp_sent [OF h] obtain tbl where
    t: "tbl = otp_records st \<or> tbl = delete_expired em (cleanup_now env) (otp_records st)" and
    o: "otp_records st' = tbl @ [new_row H secret env (uuid_counter st) em]" by blast
  have sub: "set tbl \<subseteq> set (otp_records st)"
    using t set_delete_expired [of em "cleanup_now env" "otp_records st"] by auto
  have "select_latest em (tbl @ [new_row H secret env (uuid_counter st) em])
      = Some (new_row H secret env (uuid_counter st) em)"
  proof (rule select_latest_snoc)
    fix x assume "x \<in> set tbl" "contact x = em"
    then show "created_at x < created_at (new_row H secret env (uuid_counter st) em)"
      using sub later [of x] by (auto simp: new_row_def)
  next
    show "contact (new_row H secret env (uuid_counter st) em) = em" by (simp add: new_row_def)
  qed
  then show ?thesis by (simp add: o)
qed

section \<open>C4: the newest record wins\<close>

lemma verify_otp_newest_only:
  assumes "select_latest c (otp_records st) = select_latest c (otp_records st2)"
  shows "fst (verify_otp H secret env c otp st) = fst (verify_otp H secret env c otp st2)"
  using assms by (simp add: verify_otp_def Let_def split: option.splits)

lemma second_issue_wins:
  assumes i2: "request_otp H secret env2 c st1 = (OtpSent n2, st2)"
    and later: "\<And>x. x \<in> set (otp_records st1) \<Longrightarrow> contact x = c \<Longrightarrow> created_at x < created_now env2"
    and d1: "genOtp_draw d1" and d2: "genOtp_draw (draw env2)"
    and diff: "hashOtp H secret (genOtp d1) (new_salt env2)
                \<noteq> hashOtp H secret (genOtp (draw env2)) (new_salt env2)"
    and e: "fetch_result e = Ok" "attempts_result e \<noteq> Threw" "consume_result e = Ok"
      "verify_now e \<le> expires_now env2 + OTP_TTL_MS"
  shows "fst (verify_otp H secret e c (genOtp d1) st2) = invalid_otp 4"
    and "fst (verify_otp H secret e c (genOtp (draw env2)) st2) = OtpVerified"
proof -
  let ?row = "new_row H secret env2 (uuid_counter st1) c"
  have sel: "select_latest c (otp_records st2) = Some ?row"
    using i2 later by (rule request_otp_latest)
  have f: "\<not> consumed ?row" "attempts ?row = 0" "salt ?row = new_salt env2"
    "otp_hash ?row = hashOtp H secret (genOtp (draw env2)) (new_salt env2)"
    "expires_at ?row = expires_now env2 + OTP_TTL_MS"
    by (simp_all add: new_row_def)
  show "fst (verify_otp H secret e c (genOtp d1) st2) = invalid_otp 4"
    using e diff by (simp add: verify_otp_def sel f trim_genOtp [OF d1] MAX_OTP_ATTEMPTS_def)
  show "fst (verify_otp H secret e c (genOtp (draw env2)) st2) = OtpVerified"
    using e by (simp add: verify_otp_def sel f trim_genOtp [OF d2] MAX_OTP_ATTEMPTS_def)
qed

lemma genOtp_654321: "genOtp 654321 = ''654321''"
proof -
  have "nat_digits 654321 = ''654321''"
    by (subst nat_digits_six) (simp_all add: digit_char_def)
  then show ?thesis by (simp add: genOtp_def js_String_def)
qed

lemma ex_issue1:
  "request_otp concat_mac ''devsecret'' (issue_at 1000 100123 ''ab12'' True) ''a@x.com'' empty_state
     = (OtpSent 300, ex_state)"
  by (simp add: request_otp_def issue_at_def empty_state_def delete_expired_def new_row_def Let_def
      OTP_TTL_MS_def genOtp_100123 ex_state_def ex_rec_def)

lemma ex_issue2:
  "request_otp concat_mac ''devsecret'' (issue_at 2000 654321 ''cd34'' True) ''a@x.com'' ex_state
     = (OtpSent 300, ex_state2)"
  by (simp add: request_otp_def issue_at_def ex_state_def ex_rec_def delete_expired_def new_row_def
      Let_def OTP_TTL_MS_def genOtp_654321 ex_state2_def ex_rec2_def)

lemma select_latest_max:
  assumes "select_latest k tb = Some rb" and "x \<in> set tb" and "contact x = k"
  shows "created_at x \<le> created_at rb"
proof -
  have "newest (filter (\<lambda>r. contact r = k) tb) = Some rb"
    using assms(1) by (simp add: select_latest_def)
  moreover have "x \<in> set (filter (\<lambda>r. contact r = k) tb)" using assms(2,3) by simp
  ultimately show ?thesis by (rule newest_max)
qed

lemma select_latest_unique:
  assumes r: "rc \<in> set tc" and c: "contact rc = kc"
    and later: "\<And>x. x \<in> set tc \<Longrightarrow> contact x = kc \<Longrightarrow> x \<noteq> rc \<Longrightarrow> created_at x < created_at rc"
  shows "select_latest kc tc = Some rc"
proof (cases "select_latest kc tc")
  case None
  then have "\<forall>x \<in> set tc. contact x \<noteq> kc" by (simp add: select_latest_None_iff)
  with r c show ?thesis by blast
next
  case (Some m)
  then have m: "m \<in> set tc" "contact m = kc" using select_latest_mem by blast+
  have le: "created_at rc \<le> created_at m" using Some r c by (rule select_latest_max)
  have "m = rc"
  proof (rule ccontr)
    assume "m \<noteq> rc"
    then have "created_at m < created_at rc" using later m by blast
    with le show False by simp
  qed
  with Some show ?thesis by simp
qed

text \<open>
  C4: the response of \<open>verify-otp\<close> depends on the table only through the newest record of
  the contact (greatest \<open>created_at\<close>, limit 1): the record selected is a record of the
  contact, no record of the contact has a greater \<open>created_at\<close>, and a record of the
  contact created strictly later than all its others is the one selected, wherever it
  stands in the table. After two successful issues for one contact, the second created
  strictly later than every record of the contact, a call with the first code is
  answered \<open>invalid_otp\<close> and a call with the second code succeeds, as long as the first
  code does not hash to the second record's hash, the second record is unexpired and
  the queries succeed. With no record for the contact the answer is \<open>otp_not_found\<close>.
\<close>

theorem newest_record_wins:
  "(select_latest c (otp_records sa) = select_latest c (otp_records sb) \<longrightarrow>
      fst (verify_otp H secret env c otp sa) = fst (verify_otp H secret env c otp sb))
   \<and> (request_otp H secret env1 c st = (OtpSent n1, st1) \<and>
      request_otp H secret env2 c st1 = (OtpSent n2, st2) \<and>
      (\<forall>x \<in> set (otp_records st1). contact x = c \<longrightarrow> created_at x < created_now env2) \<and>
      genOtp_draw (draw env1) \<and> genOtp_draw (draw env2) \<and>
      hashOtp H secret (genOtp (draw env1)) (new_salt env2)
        \<noteq> hashOtp H secret (genOtp (draw env2)) (new_salt env2) \<and>
      fetch_result e = Ok \<and> attempts_result e \<noteq> Threw \<and> consume_result e = Ok \<and>
      verify_now e \<le> expires_now env2 + OTP_TTL_MS \<longrightarrow>
        select_latest c (otp_records st2) = Some (new_row H secret env2 (uuid_counter st1) c) \<and>
        fst (verify_otp H secret e c (genOtp (draw env1)) st2) = invalid_otp 4 \<and>
        fst (verify_otp H secret e c (genOtp (draw env2)) st2) = OtpVerified)
   \<and> (fetch_result e0 = Ok \<and> (\<forall>x \<in> set (otp_records s0). contact x \<noteq> c) \<longrightarrow>
        verify_otp H secret e0 c otp s0 = (otp_not_found, s0))
   \<and> (select_latest k tb = Some rb \<longrightarrow>
        rb \<in> set tb \<and> contact rb = k \<and>
        (\<forall>x \<in> set tb. contact x = k \<longrightarrow> created_at x \<le> created_at rb))
   \<and> (rc \<in> set tc \<and> contact rc = kc \<and>
      (\<forall>x \<in> set tc. contact x = kc \<and> x \<noteq> rc \<longrightarrow> created_at x < created_at rc) \<longrightarrow>
        select_latest kc tc = Some rc)"
proof (intro conjI impI ballI)
  assume "select_latest c (otp_records sa) = select_latest c (otp_records sb)"
  then show "fst (verify_otp H secret env c otp sa) = fst (verify_otp H secret env c otp sb)"
    by (rule verify_otp_newest_only)
next
  assume a: "request_otp H secret env1 c st = (OtpSent n1, st1) \<and>
      request_otp H secret env2 c st1 = (OtpSent n2, st2) \<and>
      (\<forall>x \<in> set (otp_records st1). contact x = c \<longrightarrow> created_at x < created_now env2) \<and>
      genOtp_draw (draw env1) \<and> genOtp_draw (draw env2) \<and>
      hashOtp H secret (genOtp (draw env1)) (new_salt env2)
        \<noteq> hashOtp H secret (genOtp (draw env2)) (new_salt env2) \<and>
      fetch_result e = Ok \<and> attempts_result e \<noteq> Threw \<and> consume_result e = Ok \<and>
      verify_now e \<le> expires_now env2 + OTP_TTL_MS"
  then have i2: "request_otp H secret env2 c st1 = (OtpSent n2, st2)"
    and later: "\<And>x. x \<in> set (otp_records st1) \<Longrightarrow> contact x = c \<Longrightarrow> created_at x < created_now env2"
    by blast+
  show "select_latest c (otp_records st2) = Some (new_row H secret env2 (uuid_counter st1) c)"
    using i2 later by (rule request_otp_latest)
  show "fst (verify_otp H secret e c (genOtp (draw env1)) st2) = invalid_otp 4"
    using a by (intro second_issue_wins(1) [OF i2 later]) simp_all
  show "fst (verify_otp H secret e c (genOtp (draw env2)) st2) = OtpVerified"
    using a by (intro second_issue_wins(2) [OF i2 later, where ?d1.0 = "draw env1"]) simp_all
next
  assume "fetch_result e0 = Ok \<and> (\<forall>x \<in> set (otp_records s0). contact x \<noteq> c)"
  then show "verify_otp H secret e0 c otp s0 = (otp_not_found, s0)"
    by (intro verify_not_found) (simp_all add: select_latest_None_iff)
next
  assume "select_latest k tb = Some rb"
  then show "rb \<in> set tb" and "contact rb = k" using select_latest_mem by blast+
next
  fix x assume "select_latest k tb = Some rb" and "x \<in> set tb" and "contact x = k"
  then show "created_at x \<le> created_at rb" by (rule select_latest_max)
next
  assume "rc \<in> set tc \<and> contact rc = kc \<and>
      (\<forall>x \<in> set tc. contact x = kc \<and> x \<noteq> rc \<longrightarrow> created_at x < created_at rc)"
  then show "select_latest kc tc = Some rc" by (intro select_latest_unique) auto
qed

text \<open>The witness: two issues for \<open>a@x.com\<close> on the empty store, at 1000 ms and at
  2000 ms, then calls at 3000 ms; and the same calls on the table that lists the newer
  record first.\<close>

theorem newest_record_wins_witness:
  "request_otp concat_mac ''devsecret'' (issue_at 1000 100123 ''ab12'' True) ''a@x.com'' empty_state
     = (OtpSent 300, ex_state) \<and>
   request_otp concat_mac ''devsecret'' (issue_at 2000 654321 ''cd34'' True) ''a@x.com'' ex_state
     = (OtpSent 300, ex_state2) \<and>
   genOtp_draw 100123 \<and> genOtp_draw 654321 \<and> genOtp 100123 = ''100123'' \<and> genOtp 654321 = ''654321'' \<and>
   hashOtp concat_mac ''devsecret'' ''100123'' ''cd34'' \<noteq> hashOtp concat_mac ''devsecret'' ''654321'' ''cd34'' \<and>
   verify_now (ok_at 3000) \<le> 2000 + OTP_TTL_MS \<and>
   select_latest ''a@x.com'' (otp_records ex_state2) = Some ex_rec2 \<and>
   fst (verify_otp concat_mac ''devsecret'' (ok_at 3000) ''a@x.com'' ''100123'' ex_state2) = invalid_otp 4 \<and>
   fst (verify_otp concat_mac ''devsecret'' (ok_at 3000) ''a@x.com'' ''654321'' ex_state2) = OtpVerified \<and>
   select_latest ''a@x.com'' (otp_records ex_state2)
     = select_latest ''a@x.com'' (otp_records (ex_state2\<lparr>otp_records := [ex_rec2]\<rparr>)) \<and>
   fst (verify_otp concat_mac ''devsecret'' (ok_at 3000) ''a@x.com'' ''100123'' ex_state2)
     = fst (verify_otp concat_mac ''devsecret'' (ok_at 3000) ''a@x.com'' ''100123''
              (ex_state2\<lparr>otp_records := [ex_rec2]\<rparr>)) \<and>
   verify_otp concat_mac ''devsecret'' (ok_at 3000) ''b@x.com'' ''654321'' ex_state2
     = (otp_not_found, ex_state2) \<and>
   otp_records ex_state_rev = [ex_rec2, ex_rec] \<and> created_at ex_rec < created_at ex_rec2 \<and>
   select_latest ''a@x.com'' (otp_records ex_state_rev) = Some ex_rec2 \<and>
   fst (verify_otp concat_mac ''devsecret'' (ok_at 3000) ''a@x.com'' ''100123'' ex_state_rev) = invalid_otp 4 \<and>
   fst (verify_otp concat_mac ''devsecret'' (ok_at 3000) ''a@x.com'' ''654321'' ex_state_rev) = OtpVerified"
proof -
  have d: "genOtp_draw 100123" "genOtp_draw 654321"
    by (simp_all add: genOtp_draw_def randomInt_range_def)
  have later: "\<forall>x \<in> set (otp_records ex_state).
      contact x = ''a@x.com'' \<longrightarrow> created_at x < created_now (issue_at 2000 654321 ''cd34'' True)"
    by (simp add: ex_state_def ex_rec_def issue_at_def)
  have diff: "hashOtp concat_mac ''devsecret'' ''100123'' ''cd34''
      \<noteq> hashOtp concat_mac ''devsecret'' ''654321'' ''cd34''"
    by (simp add: hashOtp_def concat_mac_def)
  have e: "fetch_result (ok_at 3000) = Ok" "attempts_result (ok_at 3000) \<noteq> Threw"
    "consume_result (ok_at 3000) = Ok" "verify_now (ok_at 3000) \<le> 2000 + OTP_TTL_MS"
    by (simp_all add: ok_at_def OTP_TTL_MS_def)
  have f: "draw (issue_at 1000 100123 ''ab12'' True) = 100123"
    "draw (issue_at 2000 654321 ''cd34'' True) = 654321"
    "new_salt (issue_at 2000 654321 ''cd34'' True) = ''cd34''"
    "expires_now (issue_at 2000 654321 ''cd34'' True) = 2000"
    by (simp_all add: issue_at_def)
  have same: "select_latest ''a@x.com'' (otp_records ex_state2)
     = select_latest ''a@x.com'' (otp_records (ex_state2\<lparr>otp_records := [ex_rec2]\<rparr>))"
    by (simp add: ex_state2_def ex_rec_def ex_rec2_def select_latest_def)
  have none: "\<forall>x \<in> set (otp_records ex_state2). contact x \<noteq> ''b@x.com''"
    by (simp add: ex_state2_def ex_rec_def ex_rec2_def)
  have row: "new_row concat_mac ''devsecret'' (issue_at 2000 654321 ''cd34'' True) (uuid_counter ex_state) ''a@x.com''
      = ex_rec2"
    by (simp add: new_row_def issue_at_def ex_state_def ex_rec2_def genOtp_654321 OTP_TTL_MS_def)
  note p1 = newest_record_wins [where H = concat_mac and secret = "''devsecret''" and c = "''a@x.com''"
      and env = "ok_at 3000", THEN conjunct1]
  note p2 = newest_record_wins [where H = concat_mac and secret = "''devsecret''" and c = "''a@x.com''"
      and ?env1.0 = "issue_at 1000 100123 ''ab12'' True" and st = empty_state and ?n1.0 = 300
      and ?st1.0 = ex_state and ?env2.0 = "issue_at 2000 654321 ''cd34'' True" and ?n2.0 = 300
      and ?st2.0 = ex_state2 and e = "ok_at 3000", THEN conjunct2, THEN conjunct1]
  note p3 = newest_record_wins [where H = concat_mac and secret = "''devsecret''" and c = "''b@x.com''"
      and ?e0.0 = "ok_at 3000" and ?s0.0 = ex_state2 and otp = "''654321''",
      THEN conjunct2, THEN conjunct2, THEN conjunct1]
  note p4 = newest_record_wins [where k = "''a@x.com''" and tb = "otp_records ex_state_rev" and rb = ex_rec2,
      THEN conjunct2, THEN conjunct2, THEN conjunct2, THEN conjunct1]
  note p5 = newest_record_wins [where kc = "''a@x.com''" and tc = "otp_records ex_state_rev" and rc = ex_rec2,
      THEN conjunct2, THEN conjunct2, THEN conjunct2, THEN conjunct2]
  have c1: "fst (verify_otp concat_mac ''devsecret'' (ok_at 3000) ''a@x.com'' ''100123'' ex_state2)
     = fst (verify_otp concat_mac ''devsecret'' (ok_at 3000) ''a@x.com'' ''100123''
              (ex_state2\<lparr>otp_records := [ex_rec2]\<rparr>))"
    using p1 same by blast
  have c2: "select_latest ''a@x.com'' (otp_records ex_state2) = Some ex_rec2 \<and>
    fst (verify_otp concat_mac ''devsecret'' (ok_at 3000) ''a@x.com'' ''100123'' ex_state2) = invalid_otp 4 \<and>
    fst (verify_otp concat_mac ''devsecret'' (ok_at 3000) ''a@x.com'' ''654321'' ex_state2) = OtpVerified"
    using p2 ex_issue1 ex_issue2 later d diff e
    by (simp add: f genOtp_100123 genOtp_654321 row)
  have c3: "verify_otp concat_mac ''devsecret'' (ok_at 3000) ''b@x.com'' ''654321'' ex_state2
     = (otp_not_found, ex_state2)"
    using p3 e(1) none by blast
  have rev: "otp_records ex_state_rev = [ex_rec2, ex_rec]" by (simp add: ex_state_rev_def)
  have lt: "created_at ex_rec < created_at ex_rec2"
    by (simp add: ex_rec_def ex_rec2_def)
  have u: "ex_rec2 \<in> set (otp_records ex_state_rev) \<and> contact ex_rec2 = ''a@x.com'' \<and>
      (\<forall>x \<in> set (otp_records ex_state_rev).
          contact x = ''a@x.com'' \<and> x \<noteq> ex_rec2 \<longrightarrow> created_at x < created_at ex_rec2)"
    using lt by (simp add: rev) (simp add: ex_rec2_def)
  have c5: "select_latest ''a@x.com'' (otp_records ex_state_rev) = Some ex_rec2"
    using p5 u by (rule mp)
  have c4: "ex_rec2 \<in> set (otp_records ex_state_rev) \<and> contact ex_rec2 = ''a@x.com'' \<and>
      (\<forall>x \<in> set (otp_records ex_state_rev).
        contact x = ''a@x.com'' \<longrightarrow> created_at x \<le> created_at ex_rec2)"
    using p4 c5 by (rule mp)
  have same_rev: "select_latest ''a@x.com'' (otp_records ex_state_rev)
      = select_latest ''a@x.com'' (otp_records ex_state2)"
    using c5 c2 by simp
  have c6: "fst (verify_otp concat_mac ''devsecret'' (ok_at 3000) ''a@x.com'' ''100123'' ex_state_rev)
      = fst (verify_otp concat_mac ''devsecret'' (ok_at 3000) ''a@x.com'' ''100123'' ex_state2)"
    using p1 same_rev by (rule mp)
  have c7: "fst (verify_otp concat_mac ''devsecret'' (ok_at 3000) ''a@x.com'' ''654321'' ex_state_rev)
      = fst (verify_otp concat_mac ''devsecret'' (ok_at 3000) ''a@x.com'' ''654321'' ex_state2)"
    using p1 same_rev by (rule mp)
  show ?thesis
    using ex_issue1 ex_issue2 d diff e(4) c1 c2 c3 same genOtp_100123 genOtp_654321
      rev lt c5 c6 c7 by simp
qed

section \<open>C6: persist, then send\<close>

lemma fresh_id_cleaned:
  assumes "store_ok st"
  shows "uuid_counter st \<notin> set (map rec_id (otp_records st))"
    and "uuid_counter st \<notin> set (map rec_id (delete_expired em now (otp_records st)))"
proof -
  have b: "\<forall>r \<in> set (otp_records st). rec_id r < uuid_counter st"
    using assms by (simp add: store_ok_def)
  then show "uuid_counter st \<notin> set (map rec_id (otp_records st))" by auto
  have "set (delete_expired em now (otp_records st)) \<subseteq> set (otp_records st)"
    by (rule set_delete_expired)
  with b show "uuid_counter st \<notin> set (map rec_id (delete_expired em now (otp_records st)))" by auto
qed

lemma request_otp_not_inserted:
  assumes "insert_result env \<noteq> Ok"
  shows "outbox (snd (request_otp H secret env em st)) = outbox st"
    and "set (otp_records (snd (request_otp H secret env em st))) \<subseteq> set (otp_records st)"
    and "uuid_counter (snd (request_otp H secret env em st)) = uuid_counter st"
    and "fst (request_otp H secret env em st) = database_error \<or>
         fst (request_otp H secret env em st) = internal_error"
  using assms set_delete_expired [of em "cleanup_now env" "otp_records st"]
  by (cases "insert_result env"; auto simp: request_otp_def Let_def)+

lemma request_otp_insert_failed:
  assumes "insert_result env = Failed" and "cleanup_result env \<noteq> Threw"
  shows "fst (request_otp H secret env em st) = database_error"
  using assms by (simp add: request_otp_def Let_def)

lemma request_otp_inserted:
  assumes ok: "store_ok st" and c: "cleanup_result env \<noteq> Threw" and i: "insert_result env = Ok"
  shows "otp_records (snd (request_otp H secret env em st))
           = (if cleanup_result env = Ok then delete_expired em (cleanup_now env) (otp_records st)
              else otp_records st) @ [new_row H secret env (uuid_counter st) em]"
    and "fst (request_otp H secret env em st)
           = (if email_sent env then OtpSent (OTP_TTL_MS div 1000) else email_error)"
    and "outbox (snd (request_otp H secret env em st))
           = (if email_sent env then outbox st @ [(em, genOtp (draw env))] else outbox st)"
  using c i fresh_id_cleaned(1) [OF ok] fresh_id_cleaned(2) [OF ok, of em "cleanup_now env"]
  by (simp_all add: request_otp_def Let_def)

lemma request_otp_outbox:
  "outbox (snd (request_otp H secret env em st)) = outbox st \<or>
   (outbox (snd (request_otp H secret env em st)) = outbox st @ [(em, genOtp (draw env))] \<and>
    new_row H secret env (uuid_counter st) em \<in> set (otp_records (snd (request_otp H secret env em st))) \<and>
    fst (request_otp H secret env em st) = OtpSent (OTP_TTL_MS div 1000))"
  by (simp add: request_otp_def Let_def)

text \<open>
  C6: the handler inserts the record before it calls \<open>sendEmailOtp\<close>. (1) When the
  insert reports an error the response is \<open>database_error\<close>. (2) Whenever the insert
  does not succeed, no e-mail is sent and no record is added. (3) When the insert
  succeeds and the send fails, the response is \<open>email_error\<close>, no e-mail is recorded as
  sent, and the inserted record stays in the store as inserted (unconsumed, no attempts);
  created later than the other records of the contact, it is the newest one, the one a
  later verification reads. (4) An e-mail is sent only with its record in the store.
\<close>

theorem persist_then_send:
  "(insert_result env = Failed \<and> cleanup_result env \<noteq> Threw \<longrightarrow>
      fst (request_otp H secret env em st) = database_error)
   \<and> (insert_result env \<noteq> Ok \<longrightarrow>
      outbox (snd (request_otp H secret env em st)) = outbox st \<and>
      set (otp_records (snd (request_otp H secret env em st))) \<subseteq> set (otp_records st) \<and>
      uuid_counter (snd (request_otp H secret env em st)) = uuid_counter st)
   \<and> (store_ok s3 \<and> cleanup_result e3 \<noteq> Threw \<and> insert_result e3 = Ok \<and> \<not> email_sent e3 \<longrightarrow>
      fst (request_otp H secret e3 c3 s3) = email_error \<and>
      outbox (snd (request_otp H secret e3 c3 s3)) = outbox s3 \<and>
      otp_records (snd (request_otp H secret e3 c3 s3))
        = (if cleanup_result e3 = Ok then delete_expired c3 (cleanup_now e3) (otp_records s3)
           else otp_records s3) @ [new_row H secret e3 (uuid_counter s3) c3] \<and>
      \<not> consumed (new_row H secret e3 (uuid_counter s3) c3) \<and>
      attempts (new_row H secret e3 (uuid_counter s3) c3) = 0 \<and>
      ((\<forall>x \<in> set (otp_records s3). contact x = c3 \<longrightarrow> created_at x < created_now e3) \<longrightarrow>
         select_latest c3 (otp_records (snd (request_otp H secret e3 c3 s3)))
           = Some (new_row H secret e3 (uuid_counter s3) c3)))
   \<and> (outbox (snd (request_otp H secret e4 c4 s4)) \<noteq> outbox s4 \<longrightarrow>
      outbox (snd (request_otp H secret e4 c4 s4)) = outbox s4 @ [(c4, genOtp (draw e4))] \<and>
      new_row H secret e4 (uuid_counter s4) c4
        \<in> set (otp_records (snd (request_otp H secret e4 c4 s4))))"
proof (intro conjI impI)
  assume "insert_result env = Failed \<and> cleanup_result env \<noteq> Threw"
  then show "fst (request_otp H secret env em st) = database_error"
    by (intro request_otp_insert_failed) simp_all
next
  assume a: "insert_result env \<noteq> Ok"
  show "outbox (snd (request_otp H secret env em st)) = outbox st"
    using a by (rule request_otp_not_inserted(1))
  show "set (otp_records (snd (request_otp H secret env em st))) \<subseteq> set (otp_records st)"
    using a by (rule request_otp_not_inserted(2))
  show "uuid_counter (snd (request_otp H secret env em st)) = uuid_counter st"
    using a by (rule request_otp_not_inserted(3))
next
  assume a: "store_ok s3 \<and> cleanup_result e3 \<noteq> Threw \<and> insert_result e3 = Ok \<and> \<not> email_sent e3"
  then have ok: "store_ok s3" and c: "cleanup_result e3 \<noteq> Threw" and i: "insert_result e3 = Ok"
    and ns: "\<not> email_sent e3" by simp_all
  note ins = request_otp_inserted [OF ok c i, of H secret c3]
  show "fst (request_otp H secret e3 c3 s3) = email_error" using ins(2) ns by simp
  show "outbox (snd (request_otp H secret e3 c3 s3)) = outbox s3" using ins(3) ns by simp
  show recs: "otp_records (snd (request_otp H secret e3 c3 s3))
        = (if cleanup_result e3 = Ok then delete_expired c3 (cleanup_now e3) (otp_records s3)
           else otp_records s3) @ [new_row H secret e3 (uuid_counter s3) c3]"
    by (rule ins(1))
  show "\<not> consumed (new_row H secret e3 (uuid_counter s3) c3)" by (simp add: new_row_def)
  show "attempts (new_row H secret e3 (uuid_counter s3) c3) = 0" by (simp add: new_row_def)
  assume later: "\<forall>x \<in> set (otp_records s3). contact x = c3 \<longrightarrow> created_at x < created_now e3"
  let ?tbl = "if cleanup_result e3 = Ok then delete_expired c3 (cleanup_now e3) (otp_records s3)
           else otp_records s3"
  have sub: "set ?tbl \<subseteq> set (otp_records s3)"
    using set_delete_expired [of c3 "cleanup_now e3" "otp_records s3"] by auto
  have "select_latest c3 (?tbl @ [new_row H secret e3 (uuid_counter s3) c3])
      = Some (new_row H secret e3 (uuid_counter s3) c3)"
  proof (rule select_latest_snoc)
    fix x assume "x \<in> set ?tbl" "contact x = c3"
    then show "created_at x < created_at (new_row H secret e3 (uuid_counter s3) c3)"
      using sub later by (auto simp: new_row_def)
  next
    show "contact (new_row H secret e3 (uuid_counter s3) c3) = c3" by (simp add: new_row_def)
  qed
  then show "select_latest c3 (otp_records (snd (request_otp H secret e3 c3 s3)))
           = Some (new_row H secret e3 (uuid_counter s3) c3)"
    by (simp only: recs)
next
  assume a: "outbox (snd (request_otp H secret e4 c4 s4)) \<noteq> outbox s4"
  show "outbox (snd (request_otp H secret e4 c4 s4)) = outbox s4 @ [(c4, genOtp (draw e4))]"
    using a request_otp_outbox [of H secret e4 c4 s4] by blast
  show "new_row H secret e4 (uuid_counter s4) c4
        \<in> set (otp_records (snd (request_otp H secret e4 c4 s4)))"
    using a request_otp_outbox [of H secret e4 c4 s4] by blast
qed


text \<open>The witness: three issues for \<open>a@x.com\<close> on the empty store at 1000 ms, one whose
  insert reports an error, one whose e-mail fails, one that goes through.\<close>

theorem persist_then_send_witness:
  "insert_result ((issue_at 1000 100123 ''ab12'' True)\<lparr>insert_result := Failed\<rparr>) = Failed \<and>
   request_otp concat_mac ''devsecret'' ((issue_at 1000 100123 ''ab12'' True)\<lparr>insert_result := Failed\<rparr>)
       ''a@x.com'' empty_state = (database_error, empty_state) \<and>
   store_ok empty_state \<and> insert_result (issue_at 1000 100123 ''ab12'' False) = Ok \<and>
   \<not> email_sent (issue_at 1000 100123 ''ab12'' False) \<and>
   request_otp concat_mac ''devsecret'' (issue_at 1000 100123 ''ab12'' False) ''a@x.com'' empty_state
     = (email_error, ex_state\<lparr>outbox := []\<rparr>) \<and>
   select_latest ''a@x.com'' (otp_records (ex_state\<lparr>outbox := []\<rparr>)) = Some ex_rec \<and>
   outbox (snd (request_otp concat_mac ''devsecret'' (issue_at 1000 100123 ''ab12'' True) ''a@x.com'' empty_state))
     = [(''a@x.com'', ''100123'')] \<and>
   ex_rec \<in> set (otp_records
     (snd (request_otp concat_mac ''devsecret'' (issue_at 1000 100123 ''ab12'' True) ''a@x.com'' empty_state)))"
proof -
  let ?ef = "(issue_at 1000 100123 ''ab12'' True)\<lparr>insert_result := Failed\<rparr>"
  let ?em = "issue_at 1000 100123 ''ab12'' False"
  let ?es = "issue_at 1000 100123 ''ab12'' True"
  note t = persist_then_send [where H = concat_mac and secret = "''devsecret''"
      and env = ?ef and em = "''a@x.com''" and st = empty_state
      and ?e3.0 = ?em and ?c3.0 = "''a@x.com''" and ?s3.0 = empty_state
      and ?e4.0 = ?es and ?c4.0 = "''a@x.com''" and ?s4.0 = empty_state]
  have h1: "insert_result ?ef = Failed" "cleanup_result ?ef \<noteq> Threw" "insert_result ?ef \<noteq> Ok"
    by (simp_all add: issue_at_def)
  have h3: "store_ok empty_state" "cleanup_result ?em \<noteq> Threw" "insert_result ?em = Ok"
    "\<not> email_sent ?em" "cleanup_result ?em = Ok"
    by (simp_all add: issue_at_def store_ok_def empty_state_def)
  have later: "\<forall>x \<in> set (otp_records empty_state). contact x = ''a@x.com'' \<longrightarrow> created_at x < created_now ?em"
    by (simp add: empty_state_def)
  have row: "new_row concat_mac ''devsecret'' ?em (uuid_counter empty_state) ''a@x.com'' = ex_rec"
    "new_row concat_mac ''devsecret'' ?es (uuid_counter empty_state) ''a@x.com'' = ex_rec"
    by (simp_all add: new_row_def issue_at_def empty_state_def ex_rec_def genOtp_100123 OTP_TTL_MS_def)
  have f1: "fst (request_otp concat_mac ''devsecret'' ?ef ''a@x.com'' empty_state) = database_error"
    using t h1 by blast
  have f2: "outbox (snd (request_otp concat_mac ''devsecret'' ?ef ''a@x.com'' empty_state)) = outbox empty_state \<and>
      set (otp_records (snd (request_otp concat_mac ''devsecret'' ?ef ''a@x.com'' empty_state)))
        \<subseteq> set (otp_records empty_state) \<and>
      uuid_counter (snd (request_otp concat_mac ''devsecret'' ?ef ''a@x.com'' empty_state)) = uuid_counter empty_state"
    using t h1 by blast
  have f3': "select_latest ''a@x.com'' (otp_records (snd (request_otp concat_mac ''devsecret'' ?em ''a@x.com'' empty_state)))
        = Some (new_row concat_mac ''devsecret'' ?em (uuid_counter empty_state) ''a@x.com'')"
    using t h3(1-4) later by blast
  have f3: "fst (request_otp concat_mac ''devsecret'' ?em ''a@x.com'' empty_state) = email_error \<and>
      outbox (snd (request_otp concat_mac ''devsecret'' ?em ''a@x.com'' empty_state)) = outbox empty_state \<and>
      select_latest ''a@x.com'' (otp_records (snd (request_otp concat_mac ''devsecret'' ?em ''a@x.com'' empty_state)))
        = Some ex_rec"
    using t h3(1-4) f3' unfolding row by blast
  have s1: "request_otp concat_mac ''devsecret'' ?ef ''a@x.com'' empty_state = (database_error, empty_state)"
    by (simp add: request_otp_def issue_at_def empty_state_def delete_expired_def Let_def)
  have s3: "request_otp concat_mac ''devsecret'' ?em ''a@x.com'' empty_state
     = (email_error, ex_state\<lparr>outbox := []\<rparr>)"
    by (simp add: request_otp_def issue_at_def empty_state_def delete_expired_def new_row_def Let_def
      OTP_TTL_MS_def genOtp_100123 ex_state_def ex_rec_def)
  have ne: "outbox (snd (request_otp concat_mac ''devsecret'' ?es ''a@x.com'' empty_state)) \<noteq> outbox empty_state"
  proof -
    have "outbox empty_state = []" by (simp add: empty_state_def)
    then show ?thesis by (simp add: ex_issue1 ex_state_def)
  qed
  have f4': "outbox (snd (request_otp concat_mac ''devsecret'' ?es ''a@x.com'' empty_state))
       = outbox empty_state @ [(''a@x.com'', genOtp (draw ?es))] \<and>
     new_row concat_mac ''devsecret'' ?es (uuid_counter empty_state) ''a@x.com''
       \<in> set (otp_records (snd (request_otp concat_mac ''devsecret'' ?es ''a@x.com'' empty_state)))"
    using t ne by blast
  have f4: "outbox (snd (request_otp concat_mac ''devsecret'' ?es ''a@x.com'' empty_state))
       = outbox empty_state @ [(''a@x.com'', genOtp (draw ?es))] \<and>
     ex_rec \<in> set (otp_records (snd (request_otp concat_mac ''devsecret'' ?es ''a@x.com'' empty_state)))"
    using f4' unfolding row .
  have d: "genOtp (draw ?es) = ''100123''" by (simp add: issue_at_def genOtp_100123)
  show ?thesis
  proof -
    have o: "outbox empty_state = []" by (simp add: empty_state_def)
    have l: "select_latest ''a@x.com'' (otp_records (ex_state\<lparr>outbox := []\<rparr>)) = Some ex_rec"
      using f3 by (simp add: s3)
    show ?thesis using h1(1) h3(1,3,4) f4 s1 s3 d l by (simp add: o)
  qed
qed

section \<open>C9: signup does not look at the OTP records\<close>

lemma signup_fresh:
  assumes ok: "store_ok st" and l: "lookup_result env \<noteq> Threw" and i: "signup_insert env = Ok"
    and f1: "em \<notin> set (map u_email (users st))"
    and f2: "toLowerCase em \<notin> set (map u_email (users st))"
  shows "signup env em nm ph ag st =
    (UserCreated \<lparr> u_id = uuid_counter st, u_email = toLowerCase em, u_name = trim nm,
                    u_phone = map_option trim ph, u_age = ag, u_created_at = signup_now env \<rparr>,
     st\<lparr>users := users st @ [\<lparr> u_id = uuid_counter st, u_email = toLowerCase em, u_name = trim nm,
                    u_phone = map_option trim ph, u_age = ag, u_created_at = signup_now env \<rparr>],
        uuid_counter := Suc (uuid_counter st)\<rparr>)"
proof -
  have e: "filter (\<lambda>u. u_email u = em) (users st) = []"
    using f1 by (auto simp: filter_empty_conv)
  have "\<forall>u \<in> set (users st). u_id u < uuid_counter st" using ok by (simp add: store_ok_def)
  then have n: "uuid_counter st \<notin> set (map u_id (users st))" by auto
  show ?thesis using l i f2 n by (simp add: signup_def Let_def e)
qed

lemma toLowerCase_ex: "toLowerCase ''B@x.com'' = ''b@x.com''"
  by (simp add: toLowerCase_def lower_char_def is_upper_def)

text \<open>
  C9: the handler never reads table \<open>otp_records\<close>: its response and the users it leaves
  are the same whatever the table holds. For a store that satisfies the constraints of
  its schema and an e-mail address that is not registered (neither as given nor in lower
  case), with the insert succeeding, the response is the created user, with the address
  in lower case and the name trimmed, and the user is appended to table \<open>users\<close>;
  whether an OTP record for the address exists or was ever consumed plays no part. An
  address whose lower-case form is registered is answered \<open>user_exists\<close>, and nothing
  changes.
\<close>

theorem signup_ignores_otp:
  "fst (signup env em nm ph ag (st\<lparr>otp_records := tbl\<rparr>)) = fst (signup env em nm ph ag st)
   \<and> users (snd (signup env em nm ph ag (st\<lparr>otp_records := tbl\<rparr>)))
       = users (snd (signup env em nm ph ag st))
   \<and> (store_ok s1 \<and> lookup_result e1 \<noteq> Threw \<and> signup_insert e1 = Ok \<and>
      c1 \<notin> set (map u_email (users s1)) \<and> toLowerCase c1 \<notin> set (map u_email (users s1)) \<longrightarrow>
        (\<exists>u. fst (signup e1 c1 n1 p1 a1 s1) = UserCreated u \<and>
             u_email u = toLowerCase c1 \<and> u_name u = trim n1 \<and>
             users (snd (signup e1 c1 n1 p1 a1 s1)) = users s1 @ [u] \<and>
             otp_records (snd (signup e1 c1 n1 p1 a1 s1)) = otp_records s1))
   \<and> (lookup_result e2 \<noteq> Threw \<and> signup_insert e2 = Ok \<and>
      toLowerCase c2 \<in> set (map u_email (users s2)) \<longrightarrow>
        signup e2 c2 n2 p2 a2 s2 = (user_exists, s2))"
proof (intro conjI impI)
  show "fst (signup env em nm ph ag (st\<lparr>otp_records := tbl\<rparr>)) = fst (signup env em nm ph ag st)"
    by (simp add: signup_def Let_def)
  show "users (snd (signup env em nm ph ag (st\<lparr>otp_records := tbl\<rparr>)))
       = users (snd (signup env em nm ph ag st))"
    by (simp add: signup_def Let_def)
next
  assume a: "store_ok s1 \<and> lookup_result e1 \<noteq> Threw \<and> signup_insert e1 = Ok \<and>
      c1 \<notin> set (map u_email (users s1)) \<and> toLowerCase c1 \<notin> set (map u_email (users s1))"
  have "signup e1 c1 n1 p1 a1 s1 =
    (UserCreated \<lparr> u_id = uuid_counter s1, u_email = toLowerCase c1, u_name = trim n1,
                    u_phone = map_option trim p1, u_age = a1, u_created_at = signup_now e1 \<rparr>,
     s1\<lparr>users := users s1 @ [\<lparr> u_id = uuid_counter s1, u_email = toLowerCase c1, u_name = trim n1,
                    u_phone = map_option trim p1, u_age = a1, u_created_at = signup_now e1 \<rparr>],
        uuid_counter := Suc (uuid_counter s1)\<rparr>)"
    using a by (intro signup_fresh) simp_all
  then show "\<exists>u. fst (signup e1 c1 n1 p1 a1 s1) = UserCreated u \<and>
             u_email u = toLowerCase c1 \<and> u_name u = trim n1 \<and>
             users (snd (signup e1 c1 n1 p1 a1 s1)) = users s1 @ [u] \<and>
             otp_records (snd (signup e1 c1 n1 p1 a1 s1)) = otp_records s1"
    by simp
next
  assume "lookup_result e2 \<noteq> Threw \<and> signup_insert e2 = Ok \<and>
      toLowerCase c2 \<in> set (map u_email (users s2))"
  then show "signup e2 c2 n2 p2 a2 s2 = (user_exists, s2)"
    by (simp add: signup_def Let_def)
qed

lemma toLowerCase_latin1:
  "toLowerCase (CHR 0xC9 # ''va@x.com'') = CHR 0xE9 # ''va@x.com''"
  by (simp add: toLowerCase_def lower_char_def is_upper_def)

text \<open>The witness: signup for \<open>B@x.com\<close>, for which no OTP record exists, on the
  example store, whose only OTP record (for \<open>a@x.com\<close>) was never verified; and then
  signup for the address that starts with the capital E acute (code 201), whose
  lower-case form (code 233) is registered.\<close>

theorem signup_ignores_otp_witness:
  "store_ok ex_state \<and> lookup_result (signup_at 5000) \<noteq> Threw \<and> signup_insert (signup_at 5000) = Ok \<and>
   ''B@x.com'' \<notin> set (map u_email (users ex_state)) \<and>
   toLowerCase ''B@x.com'' \<notin> set (map u_email (users ex_state)) \<and>
   select_latest ''B@x.com'' (otp_records ex_state) = None \<and>
   select_latest ''b@x.com'' (otp_records ex_state) = None \<and>
   list_all (\<lambda>r. \<not> consumed r) (otp_records ex_state) \<and>
   fst (signup (signup_at 5000) ''B@x.com'' '' Bea '' None (Some 25) ex_state)
     = UserCreated \<lparr> u_id = 1, u_email = ''b@x.com'', u_name = ''Bea'', u_phone = None,
                      u_age = Some 25, u_created_at = 5000 \<rparr> \<and>
   users (snd (signup (signup_at 5000) ''B@x.com'' '' Bea '' None (Some 25) ex_state))
     = [\<lparr> u_id = 1, u_email = ''b@x.com'', u_name = ''Bea'', u_phone = None,
          u_age = Some 25, u_created_at = 5000 \<rparr>] \<and>
   fst (signup (signup_at 5000) ''B@x.com'' '' Bea '' None (Some 25) (ex_state\<lparr>otp_records := []\<rparr>))
     = fst (signup (signup_at 5000) ''B@x.com'' '' Bea '' None (Some 25) ex_state) \<and>
   toLowerCase (CHR 0xC9 # ''va@x.com'') = CHR 0xE9 # ''va@x.com'' \<and>
   signup (signup_at 6000) (CHR 0xC9 # ''va@x.com'') ''Eva'' None None
       (ex_state\<lparr>users := [\<lparr> u_id = 1, u_email = CHR 0xE9 # ''va@x.com'', u_name = ''Eva'',
                               u_phone = None, u_age = None, u_created_at = 5000 \<rparr>]\<rparr>)
     = (user_exists,
        ex_state\<lparr>users := [\<lparr> u_id = 1, u_email = CHR 0xE9 # ''va@x.com'', u_name = ''Eva'',
                               u_phone = None, u_age = None, u_created_at = 5000 \<rparr>]\<rparr>)"
proof -
  have h: "store_ok ex_state" "lookup_result (signup_at 5000) \<noteq> Threw"
    "signup_insert (signup_at 5000) = Ok"
    "''B@x.com'' \<notin> set (map u_email (users ex_state))"
    "toLowerCase ''B@x.com'' \<notin> set (map u_email (users ex_state))"
    using ex_store_ok(1) by (simp_all add: signup_at_def ex_state_def)
  have o: "select_latest ''B@x.com'' (otp_records ex_state) = None"
    "select_latest ''b@x.com'' (otp_records ex_state) = None"
    "list_all (\<lambda>r. \<not> consumed r) (otp_records ex_state)"
    by (simp_all add: select_latest_def ex_state_def ex_rec_def)
  let ?s2 = "ex_state\<lparr>users := [\<lparr> u_id = 1, u_email = CHR 0xE9 # ''va@x.com'', u_name = ''Eva'',
                               u_phone = None, u_age = None, u_created_at = 5000 \<rparr>]\<rparr>"
  note t = signup_ignores_otp [where env = "signup_at 5000" and em = "''B@x.com''" and nm = "'' Bea ''"
      and ph = None and ag = "Some 25" and st = ex_state and tbl = "[]"
      and ?e1.0 = "signup_at 5000" and ?c1.0 = "''B@x.com''" and ?n1.0 = "'' Bea ''"
      and ?p1.0 = None and ?a1.0 = "Some 25" and ?s1.0 = ex_state
      and ?e2.0 = "signup_at 6000" and ?c2.0 = "CHR 0xC9 # ''va@x.com''" and ?n2.0 = "''Eva''"
      and ?p2.0 = None and ?a2.0 = None and ?s2.0 = ?s2]
  have h2: "lookup_result (signup_at 6000) \<noteq> Threw \<and> signup_insert (signup_at 6000) = Ok \<and>
      toLowerCase (CHR 0xC9 # ''va@x.com'') \<in> set (map u_email (users ?s2))"
    by (simp add: toLowerCase_latin1) (simp add: signup_at_def)
  from t h2 have x: "signup (signup_at 6000) (CHR 0xC9 # ''va@x.com'') ''Eva'' None None ?s2
      = (user_exists, ?s2)" by blast
  from t h obtain u where u: "fst (signup (signup_at 5000) ''B@x.com'' '' Bea '' None (Some 25) ex_state) = UserCreated u"
    "users (snd (signup (signup_at 5000) ''B@x.com'' '' Bea '' None (Some 25) ex_state)) = users ex_state @ [u]"
    by blast
  have v: "signup (signup_at 5000) ''B@x.com'' '' Bea '' None (Some 25) ex_state =
    (UserCreated \<lparr> u_id = 1, u_email = ''b@x.com'', u_name = ''Bea'', u_phone = None,
                      u_age = Some 25, u_created_at = 5000 \<rparr>,
     ex_state\<lparr>users := [\<lparr> u_id = 1, u_email = ''b@x.com'', u_name = ''Bea'', u_phone = None,
                      u_age = Some 25, u_created_at = 5000 \<rparr>], uuid_counter := 2\<rparr>)"
    by (subst signup_fresh [OF h])
       (simp add: toLowerCase_ex trim_def is_ws_def signup_at_def ex_state_def)
  from t have i: "fst (signup (signup_at 5000) ''B@x.com'' '' Bea '' None (Some 25) (ex_state\<lparr>otp_records := []\<rparr>))
     = fst (signup (signup_at 5000) ''B@x.com'' '' Bea '' None (Some 25) ex_state)"
    by blast
  show ?thesis using h o u i x toLowerCase_latin1 by (simp add: v)
qed

section \<open>C10: the candidate code is trimmed by the handler, and validated before it\<close>

lemma sanitizeString_plain: "CHR ''<'' \<notin> set str \<Longrightarrow> sanitizeString L str = str"
  by (simp add: sanitizeString_def)

lemma ws_not_lt: "is_ws x \<Longrightarrow> x \<noteq> CHR ''<''"
  by (auto simp: is_ws_def)

lemma digit_not_lt: "is_digit x \<Longrightarrow> x \<noteq> CHR ''<''"
  by (auto simp: is_digit_def)

lemma padded_code_plain:
  assumes "\<And>x. x \<in> set pre \<Longrightarrow> is_ws x" and "\<And>x. x \<in> set post \<Longrightarrow> is_ws x" and "genOtp_draw d"
  shows "CHR ''<'' \<notin> set (pre @ genOtp d @ post)"
    and "length (pre @ genOtp d @ post) = length pre + 6 + length post"
    and "trim (pre @ genOtp d @ post) = genOtp d"
proof -
  have g: "length (genOtp d) = 6" "list_all is_digit (genOtp d)"
    using genOtp_shape [of d] assms(3) by (simp_all add: genOtp_draw_def randomInt_range_def)
  have "\<And>x. x \<in> set (genOtp d) \<Longrightarrow> x \<noteq> CHR ''<''"
    using g(2) digit_not_lt by (auto simp: list_all_iff)
  then show "CHR ''<'' \<notin> set (pre @ genOtp d @ post)"
    using assms(1,2) ws_not_lt by auto
  show "length (pre @ genOtp d @ post) = length pre + 6 + length post" by (simp add: g(1))
  have "trim (pre @ genOtp d @ post) = trim (genOtp d)"
    by (rule trim_padded) (use assms in auto)
  then show "trim (pre @ genOtp d @ post) = genOtp d" by (simp add: trim_genOtp [OF assms(3)])
qed

lemma verify_route_invalid_length:
  assumes "\<not> general_limited renv" and "\<not> auth_limited renv"
    and "CHR ''<'' \<notin> set otp" and "length otp \<noteq> 6"
  shows "verify_route L H secret renv env c otp st = (Inl validation_error, st)"
  using assms by (auto simp: verify_route_def Let_def sanitizeString_plain)

lemma verify_route_admitted:
  assumes "\<not> general_limited renv" and "\<not> auth_limited renv"
    and "CHR ''<'' \<notin> set c" and "CHR ''<'' \<notin> set otp"
    and "isEmail L c" and "length otp = 6" and "isNumeric L otp"
  shows "verify_route L H secret renv env c otp st
           = (Inr (fst (verify_otp H secret env (normalizeEmail L c) otp st)),
              snd (verify_otp H secret env (normalizeEmail L c) otp st))"
  using assms by (simp add: verify_route_def Let_def sanitizeString_plain split_beta)

text \<open>
  C10 says that verify behaves on a candidate as on the trimmed candidate, so that a
  correct code submitted with white space around it verifies. That holds of the handler,
  which hashes \<open>String(otp).trim()\<close>, but a submitted code passes
  \<open>validateOtpVerification\<close> first, which admits exactly six characters. C10 as amended:
  (1) the handler gives the same response and the same store for a candidate, for the
  trimmed candidate and for the candidate padded with spaces; (2) trimming a generated
  code padded with white space gives the code back; (3) in the handler, a correct code
  padded with white space verifies the newest record of the contact when that record is
  unconsumed, unexpired and under the attempt cap, and sets it consumed; (4) through the
  route, a generated code submitted with white space before or after it is answered
  \<open>validation_error\<close> and changes nothing, whatever the record holds; (5) a request that
  passes the limiters and the validation is answered as the handler answers the
  normalized contact and the code.
\<close>

theorem padded_code_handler_and_route:
  "(verify_otp H secret env c (trim otp) st = verify_otp H secret env c otp st \<and>
    verify_otp H secret env c (replicate m CHR '' '' @ otp @ replicate n CHR '' '') st
      = verify_otp H secret env c otp st)
   \<and> ((\<forall>x \<in> set pre. is_ws x) \<and> (\<forall>x \<in> set post. is_ws x) \<and> genOtp_draw d \<longrightarrow>
        trim (pre @ genOtp d @ post) = genOtp d)
   \<and> ((\<forall>x \<in> set pre1. is_ws x) \<and> (\<forall>x \<in> set post1. is_ws x) \<and> genOtp_draw d1 \<and>
      fetch_result e1 = Ok \<and> consume_result e1 = Ok \<and>
      select_latest c1 (otp_records s1) = Some r \<and> \<not> consumed r \<and>
      verify_now e1 \<le> expires_at r \<and> attempts r < MAX_OTP_ATTEMPTS \<and>
      otp_hash r = hashOtp H secret (genOtp d1) (salt r) \<longrightarrow>
        verify_otp H secret e1 c1 (pre1 @ genOtp d1 @ post1) s1
          = (OtpVerified,
             s1\<lparr>otp_records := update_by_id (rec_id r) (\<lambda>x. x\<lparr>consumed := True\<rparr>) (otp_records s1)\<rparr>))
   \<and> ((\<forall>x \<in> set pre2. is_ws x) \<and> (\<forall>x \<in> set post2. is_ws x) \<and> genOtp_draw d2 \<and>
      (pre2 \<noteq> [] \<or> post2 \<noteq> []) \<and> \<not> general_limited renv \<and> \<not> auth_limited renv \<longrightarrow>
        verify_route L H secret renv e2 c2 (pre2 @ genOtp d2 @ post2) s2 = (Inl validation_error, s2))
   \<and> (\<not> general_limited renv3 \<and> \<not> auth_limited renv3 \<and>
      CHR ''<'' \<notin> set c3 \<and> CHR ''<'' \<notin> set otp3 \<and>
      isEmail L3 c3 \<and> length otp3 = 6 \<and> isNumeric L3 otp3 \<longrightarrow>
        verify_route L3 H secret renv3 e3 c3 otp3 s3
          = (Inr (fst (verify_otp H secret e3 (normalizeEmail L3 c3) otp3 s3)),
             snd (verify_otp H secret e3 (normalizeEmail L3 c3) otp3 s3)))"
proof (intro conjI impI)
  have p: "trim (replicate m CHR '' '' @ otp @ replicate n CHR '' '') = trim otp"
    by (rule trim_padded) (simp_all add: is_ws_def)
  show "verify_otp H secret env c (trim otp) st = verify_otp H secret env c otp st"
    unfolding verify_otp_def trim_idem by simp
  show "verify_otp H secret env c (replicate m CHR '' '' @ otp @ replicate n CHR '' '') st
      = verify_otp H secret env c otp st"
    unfolding verify_otp_def p by simp
next
  assume "(\<forall>x \<in> set pre. is_ws x) \<and> (\<forall>x \<in> set post. is_ws x) \<and> genOtp_draw d"
  then show "trim (pre @ genOtp d @ post) = genOtp d"
    by (intro padded_code_plain(3)) auto
next
  assume a: "(\<forall>x \<in> set pre1. is_ws x) \<and> (\<forall>x \<in> set post1. is_ws x) \<and> genOtp_draw d1 \<and>
      fetch_result e1 = Ok \<and> consume_result e1 = Ok \<and>
      select_latest c1 (otp_records s1) = Some r \<and> \<not> consumed r \<and>
      verify_now e1 \<le> expires_at r \<and> attempts r < MAX_OTP_ATTEMPTS \<and>
      otp_hash r = hashOtp H secret (genOtp d1) (salt r)"
  then have t: "trim (pre1 @ genOtp d1 @ post1) = genOtp d1"
    by (intro padded_code_plain(3)) auto
  show "verify_otp H secret e1 c1 (pre1 @ genOtp d1 @ post1) s1
          = (OtpVerified,
             s1\<lparr>otp_records := update_by_id (rec_id r) (\<lambda>x. x\<lparr>consumed := True\<rparr>) (otp_records s1)\<rparr>)"
    using a by (intro verify_right_code) (simp_all add: t)
next
  assume a: "(\<forall>x \<in> set pre2. is_ws x) \<and> (\<forall>x \<in> set post2. is_ws x) \<and> genOtp_draw d2 \<and>
      (pre2 \<noteq> [] \<or> post2 \<noteq> []) \<and> \<not> general_limited renv \<and> \<not> auth_limited renv"
  then have w: "\<And>x. x \<in> set pre2 \<Longrightarrow> is_ws x" "\<And>x. x \<in> set post2 \<Longrightarrow> is_ws x" "genOtp_draw d2"
    by auto
  have len: "length (pre2 @ genOtp d2 @ post2) \<noteq> 6"
    using a padded_code_plain(2) [OF w] by auto
  show "verify_route L H secret renv e2 c2 (pre2 @ genOtp d2 @ post2) s2 = (Inl validation_error, s2)"
    using a padded_code_plain(1) [OF w] len by (intro verify_route_invalid_length) simp_all
next
  assume "\<not> general_limited renv3 \<and> \<not> auth_limited renv3 \<and>
      CHR ''<'' \<notin> set c3 \<and> CHR ''<'' \<notin> set otp3 \<and>
      isEmail L3 c3 \<and> length otp3 = 6 \<and> isNumeric L3 otp3"
  then show "verify_route L3 H secret renv3 e3 c3 otp3 s3
          = (Inr (fst (verify_otp H secret e3 (normalizeEmail L3 c3) otp3 s3)),
             snd (verify_otp H secret e3 (normalizeEmail L3 c3) otp3 s3))"
    by (intro verify_route_admitted) simp_all
qed


lemma trim_ex: "trim '' 100123  '' = ''100123''"
  by (simp add: trim_def is_ws_def)

lemma ex_route_padded:
  "verify_route ex_library concat_mac ''devsecret'' unlimited (ok_at 2000) ''a@x.com'' '' 100123  '' ex_state
     = (Inl validation_error, ex_state)"
  by (rule verify_route_invalid_length) (simp_all add: unlimited_def)

lemma ex_route_plain:
  "verify_route ex_library concat_mac ''devsecret'' unlimited (ok_at 2000) ''a@x.com'' ''100123'' ex_state
     = (Inr OtpVerified, ex_used)"
proof -
  have "verify_route ex_library concat_mac ''devsecret'' unlimited (ok_at 2000) ''a@x.com'' ''100123'' ex_state
     = (Inr (fst (verify_otp concat_mac ''devsecret'' (ok_at 2000)
                    (normalizeEmail ex_library ''a@x.com'') ''100123'' ex_state)),
        snd (verify_otp concat_mac ''devsecret'' (ok_at 2000)
                    (normalizeEmail ex_library ''a@x.com'') ''100123'' ex_state))"
    by (rule verify_route_admitted) (simp_all add: unlimited_def ex_library_def is_digit_def)
  moreover have "normalizeEmail ex_library ''a@x.com'' = ''a@x.com''" by (simp add: ex_library_def)
  ultimately show ?thesis by (simp add: ex_verify_ok)
qed

text \<open>The witness: the code \<open>100123\<close> of the example store with one space before it and
  two after it, given to the handler and submitted through the route.\<close>

theorem padded_code_handler_and_route_witness:
  "genOtp_draw 100123 \<and> genOtp 100123 = ''100123'' \<and>
   trim ('' '' @ ''100123'' @ ''  '') = ''100123'' \<and>
   fetch_result (ok_at 2000) = Ok \<and> consume_result (ok_at 2000) = Ok \<and>
   select_latest ''a@x.com'' (otp_records ex_state) = Some ex_rec \<and> \<not> consumed ex_rec \<and>
   verify_now (ok_at 2000) \<le> expires_at ex_rec \<and> attempts ex_rec < MAX_OTP_ATTEMPTS \<and>
   otp_hash ex_rec = hashOtp concat_mac ''devsecret'' ''100123'' (salt ex_rec) \<and>
   verify_otp concat_mac ''devsecret'' (ok_at 2000) ''a@x.com'' ('' '' @ ''100123'' @ ''  '') ex_state
     = (OtpVerified, ex_used) \<and>
   \<not> general_limited unlimited \<and> \<not> auth_limited unlimited \<and>
   verify_route ex_library concat_mac ''devsecret'' unlimited (ok_at 2000) ''a@x.com''
       ('' '' @ ''100123'' @ ''  '') ex_state
     = (Inl validation_error, ex_state) \<and>
   isEmail ex_library ''a@x.com'' \<and> isNumeric ex_library ''100123'' \<and>
   verify_route ex_library concat_mac ''devsecret'' unlimited (ok_at 2000) ''a@x.com'' ''100123'' ex_state
     = (Inr OtpVerified, ex_used)"
proof -
  note p2 = padded_code_handler_and_route [where pre = "'' ''" and post = "''  ''" and d = 100123,
      THEN conjunct2, THEN conjunct1]
  note p3 = padded_code_handler_and_route [where ?pre1.0 = "'' ''" and ?post1.0 = "''  ''"
      and ?d1.0 = 100123 and ?e1.0 = "ok_at 2000" and ?c1.0 = "''a@x.com''" and ?s1.0 = ex_state
      and r = ex_rec and H = concat_mac and secret = "''devsecret''",
      THEN conjunct2, THEN conjunct2, THEN conjunct1]
  note p4 = padded_code_handler_and_route [where ?pre2.0 = "'' ''" and ?post2.0 = "''  ''"
      and ?d2.0 = 100123 and renv = unlimited and L = ex_library and H = concat_mac
      and secret = "''devsecret''" and ?e2.0 = "ok_at 2000" and ?c2.0 = "''a@x.com''"
      and ?s2.0 = ex_state,
      THEN conjunct2, THEN conjunct2, THEN conjunct2, THEN conjunct1]
  note p5 = padded_code_handler_and_route [where ?renv3.0 = unlimited and ?L3.0 = ex_library
      and H = concat_mac and secret = "''devsecret''" and ?e3.0 = "ok_at 2000"
      and ?c3.0 = "''a@x.com''" and ?otp3.0 = "''100123''" and ?s3.0 = ex_state,
      THEN conjunct2, THEN conjunct2, THEN conjunct2, THEN conjunct2]
  have d: "genOtp_draw 100123" by (simp add: genOtp_draw_def randomInt_range_def)
  have ws: "(\<forall>x \<in> set '' ''. is_ws x) \<and> (\<forall>x \<in> set ''  ''. is_ws x)"
    by (simp add: is_ws_def)
  have h3: "fetch_result (ok_at 2000) = Ok" "consume_result (ok_at 2000) = Ok"
    "\<not> consumed ex_rec" "verify_now (ok_at 2000) \<le> expires_at ex_rec"
    "attempts ex_rec < MAX_OTP_ATTEMPTS"
    "otp_hash ex_rec = hashOtp concat_mac ''devsecret'' ''100123'' (salt ex_rec)"
    by (simp_all add: ok_at_def ex_rec_def MAX_OTP_ATTEMPTS_def)
  have u: "\<not> general_limited unlimited" "\<not> auth_limited unlimited"
    by (simp_all add: unlimited_def)
  have l: "CHR ''<'' \<notin> set ''a@x.com''" "CHR ''<'' \<notin> set ''100123''"
    "isEmail ex_library ''a@x.com''" "length ''100123'' = 6" "isNumeric ex_library ''100123''"
    "normalizeEmail ex_library ''a@x.com'' = ''a@x.com''"
    by (simp_all add: ex_library_def is_digit_def)
  have c2: "trim ('' '' @ genOtp 100123 @ ''  '') = genOtp 100123"
    using p2 ws d by blast
  have c3: "verify_otp concat_mac ''devsecret'' (ok_at 2000) ''a@x.com'' ('' '' @ genOtp 100123 @ ''  '') ex_state
          = (OtpVerified,
             ex_state\<lparr>otp_records := update_by_id (rec_id ex_rec) (\<lambda>x. x\<lparr>consumed := True\<rparr>)
                (otp_records ex_state)\<rparr>)"
    using p3 ws d h3 ex_latest by (simp only: genOtp_100123 simp_thms)
  have s: "ex_state\<lparr>otp_records := update_by_id (rec_id ex_rec) (\<lambda>x. x\<lparr>consumed := True\<rparr>)
                (otp_records ex_state)\<rparr> = ex_used"
    by (simp add: update_by_id_def ex_state_def ex_used_def)
  have c4: "verify_route ex_library concat_mac ''devsecret'' unlimited (ok_at 2000) ''a@x.com''
       ('' '' @ genOtp 100123 @ ''  '') ex_state = (Inl validation_error, ex_state)"
    using p4 ws d u by blast
  have c5: "verify_route ex_library concat_mac ''devsecret'' unlimited (ok_at 2000) ''a@x.com'' ''100123'' ex_state
      = (Inr (fst (verify_otp concat_mac ''devsecret'' (ok_at 2000)
                    (normalizeEmail ex_library ''a@x.com'') ''100123'' ex_state)),
         snd (verify_otp concat_mac ''devsecret'' (ok_at 2000)
                    (normalizeEmail ex_library ''a@x.com'') ''100123'' ex_state))"
    using p5 u l(1-5) by blast
  have c5': "verify_route ex_library concat_mac ''devsecret'' unlimited (ok_at 2000) ''a@x.com'' ''100123'' ex_state
      = (Inr OtpVerified, ex_used)"
    using c5 by (simp add: l(6) ex_verify_ok)
  show ?thesis
    using d genOtp_100123 c2 c3 c4 c5' h3 u l(3,5) ex_latest
    by (simp only: genOtp_100123 s simp_thms)
qed

text \<open>C10 as stated fails: submitted through the route, the code \<open>100123\<close> of the example
  store verifies, and the same code with a space before it and two after it is answered
  \<open>validation_error\<close>; so verify does not behave on a candidate as on its trimmed
  form, and a correct code with white space around it does not verify.\<close>

theorem padded_code_rejected_counterexample:
  "trim '' 100123  '' = ''100123'' \<and>
   verify_route ex_library concat_mac ''devsecret'' unlimited (ok_at 2000) ''a@x.com''
       (trim '' 100123  '') ex_state
     = (Inr OtpVerified, ex_used) \<and>
   verify_route ex_library concat_mac ''devsecret'' unlimited (ok_at 2000) ''a@x.com'' '' 100123  '' ex_state
     = (Inl validation_error, ex_state) \<and>
   verify_route ex_library concat_mac ''devsecret'' unlimited (ok_at 2000) ''a@x.com'' '' 100123  '' ex_state
     \<noteq> verify_route ex_library concat_mac ''devsecret'' unlimited (ok_at 2000) ''a@x.com''
         (trim '' 100123  '') ex_state"
  by (simp add: trim_ex ex_route_padded ex_route_plain)

section \<open>C7: resend in the browser's service\<close>

lemma generateOTP_genOtp: "generateOTP k = genOtp k"
  by (simp add: generateOTP_def genOtp_def)

lemma resendOTP_none:
  "otpStorage svc em = None \<Longrightarrow>
     resendOTP env em svc = (Inl ''No pending registration found for this email.'', svc)"
  by (simp add: resendOTP_def)

lemma resendOTP_some:
  assumes "otpStorage svc em = Some a"
  shows "fst (resendOTP env em svc)
           = Inr \<lparr> message = ''New OTP sent successfully'', res_expiryTime = ds_now env + 600000 \<rparr>"
    and "otpStorage (snd (resendOTP env em svc)) = otpStorage svc"
    and "next_addr (snd (resendOTP env em svc)) = next_addr svc"
    and "objects (snd (resendOTP env em svc))
           = (objects svc)(a := (objects svc a)\<lparr>otp_e := generateOTP (ds_draw env),
                expiryTime := ds_now env + 600000, attempts_e := 0\<rparr>)"
    and "delivered (snd (resendOTP env em svc))
           = (if service_ok env then delivered svc @ [(em, generateOTP (ds_draw env))] else delivered svc)"
    and "simulated (snd (resendOTP env em svc))
           = (if service_ok env then simulated svc else simulated svc @ [(em, generateOTP (ds_draw env))])"
  using assms by (simp_all add: resendOTP_def Let_def sendOTPEmail_def otpExpiry_def)

lemma sendRegistrationOTP_effect:
  shows "fst (sendRegistrationOTP env em ud svc)
           = Inr \<lparr> message = ''OTP sent successfully'', res_expiryTime = ds_now env + 600000 \<rparr>"
    and "otpStorage (snd (sendRegistrationOTP env em ud svc)) = (otpStorage svc)(em \<mapsto> next_addr svc)"
    and "next_addr (snd (sendRegistrationOTP env em ud svc)) = Suc (next_addr svc)"
    and "objects (snd (sendRegistrationOTP env em ud svc))
           = (objects svc)(next_addr svc := \<lparr> otp_e = generateOTP (ds_draw env), userData = ud,
                expiryTime = ds_now env + 600000, attempts_e = 0 \<rparr>)"
    and "delivered (snd (sendRegistrationOTP env em ud svc))
           = (if service_ok env then delivered svc @ [(em, generateOTP (ds_draw env))] else delivered svc)"
    and "simulated (snd (sendRegistrationOTP env em ud svc))
           = (if service_ok env then simulated svc else simulated svc @ [(em, generateOTP (ds_draw env))])"
  by (simp_all add: sendRegistrationOTP_def Let_def sendOTPEmail_def otpExpiry_def)

lemma resend_as_issue_some:
  assumes "otpStorage svc em = Some a"
  shows "resend_as_issue env em svc = sendRegistrationOTP env em (userData (objects svc a)) svc"
  using assms by (simp add: resend_as_issue_def)

lemma ex_service_facts:
  "otpStorage ex_service ''a@x.com'' = Some 0" "next_addr ex_service = 1"
  "objects ex_service 0 = \<lparr> otp_e = ''100123'', userData = ex_user, expiryTime = 601000, attempts_e = 0 \<rparr>"
  by (simp_all add: ex_service_def sendRegistrationOTP_effect new_service_def ds_at_def
      generateOTP_genOtp genOtp_100123)

lemma ex_service2_facts:
  "otpStorage ex_service2 ''a@x.com'' = Some 0" "next_addr ex_service2 = 1"
  "objects ex_service2 0 = \<lparr> otp_e = ''100123'', userData = ex_user, expiryTime = 601000, attempts_e = 2 \<rparr>"
  by (simp_all add: ex_service2_def verifyRegistrationOTP_def Let_def ex_service_facts)

lemma ex_service2_sent:
  "delivered ex_service2 = [(''a@x.com'', ''100123'')]" "simulated ex_service2 = []"
  by (simp_all add: ex_service2_def verifyRegistrationOTP_def Let_def ex_service_facts)
     (simp_all add: ex_service_def sendRegistrationOTP_effect new_service_def ds_at_def
        generateOTP_genOtp genOtp_100123)

lemma resend_same_entry:
  assumes "otpStorage svc em = Some a"
  shows "lookup_entry (snd (resendOTP env em svc)) em = lookup_entry (snd (resend_as_issue env em svc)) em"
  using assms
  by (simp add: lookup_entry_def resendOTP_some resend_as_issue_some sendRegistrationOTP_effect)

text \<open>
  C7 says that resend is the issue operation again: a fresh record, the old record's
  attempts left behind rather than reset in place. The service keeps one entry per
  address in a map, and \<open>resendOTP\<close> assigns to that entry. C7 as amended: resend fails
  with "No pending registration found for this email." when the map has no entry for the
  contact; otherwise it creates no record: it overwrites the code and the expiry time
  (now + 10 minutes) of the existing entry and resets its attempts to 0 in place,
  keeping the profile data, sends the new code to the contact (through the e-mail
  service, or through the simulation when the service fails), and returns the new expiry
  time. What a later lookup of the contact reads, the codes sent and the expiry time
  returned are the same as after issuing again with the stored profile data.
\<close>

theorem resendOTP_resets_in_place:
  "(otpStorage svc em = None \<longrightarrow>
      resendOTP env em svc = (Inl ''No pending registration found for this email.'', svc))
   \<and> (otpStorage s1 c1 = Some a \<longrightarrow>
      fst (resendOTP e1 c1 s1)
        = Inr \<lparr> message = ''New OTP sent successfully'', res_expiryTime = ds_now e1 + 600000 \<rparr> \<and>
      otpStorage (snd (resendOTP e1 c1 s1)) = otpStorage s1 \<and>
      next_addr (snd (resendOTP e1 c1 s1)) = next_addr s1 \<and>
      objects (snd (resendOTP e1 c1 s1))
        = (objects s1)(a := (objects s1 a)\<lparr>otp_e := generateOTP (ds_draw e1),
             expiryTime := ds_now e1 + 600000, attempts_e := 0\<rparr>) \<and>
      delivered (snd (resendOTP e1 c1 s1))
        = (if service_ok e1 then delivered s1 @ [(c1, generateOTP (ds_draw e1))] else delivered s1) \<and>
      simulated (snd (resendOTP e1 c1 s1))
        = (if service_ok e1 then simulated s1 else simulated s1 @ [(c1, generateOTP (ds_draw e1))]) \<and>
      lookup_entry (snd (resendOTP e1 c1 s1)) c1 = lookup_entry (snd (resend_as_issue e1 c1 s1)) c1 \<and>
      delivered (snd (resendOTP e1 c1 s1)) = delivered (snd (resend_as_issue e1 c1 s1)) \<and>
      simulated (snd (resendOTP e1 c1 s1)) = simulated (snd (resend_as_issue e1 c1 s1)) \<and>
      map_sum id res_expiryTime (fst (resendOTP e1 c1 s1))
        = map_sum id res_expiryTime (fst (resend_as_issue e1 c1 s1)))"
proof (intro conjI impI)
  assume "otpStorage svc em = None"
  then show "resendOTP env em svc = (Inl ''No pending registration found for this email.'', svc)"
    by (rule resendOTP_none)
next
  assume a: "otpStorage s1 c1 = Some a"
  note r = resendOTP_some [OF a, of e1]
  note i = resend_as_issue_some [OF a, of e1]
  show "fst (resendOTP e1 c1 s1)
        = Inr \<lparr> message = ''New OTP sent successfully'', res_expiryTime = ds_now e1 + 600000 \<rparr>"
    by (rule r(1))
  show "otpStorage (snd (resendOTP e1 c1 s1)) = otpStorage s1" by (rule r(2))
  show "next_addr (snd (resendOTP e1 c1 s1)) = next_addr s1" by (rule r(3))
  show "objects (snd (resendOTP e1 c1 s1))
        = (objects s1)(a := (objects s1 a)\<lparr>otp_e := generateOTP (ds_draw e1),
             expiryTime := ds_now e1 + 600000, attempts_e := 0\<rparr>)" by (rule r(4))
  show "delivered (snd (resendOTP e1 c1 s1))
        = (if service_ok e1 then delivered s1 @ [(c1, generateOTP (ds_draw e1))] else delivered s1)"
    by (rule r(5))
  show "simulated (snd (resendOTP e1 c1 s1))
        = (if service_ok e1 then simulated s1 else simulated s1 @ [(c1, generateOTP (ds_draw e1))])"
    by (rule r(6))
  show "lookup_entry (snd (resendOTP e1 c1 s1)) c1 = lookup_entry (snd (resend_as_issue e1 c1 s1)) c1"
    using a by (rule resend_same_entry)
  show "delivered (snd (resendOTP e1 c1 s1)) = delivered (snd (resend_as_issue e1 c1 s1))"
    by (simp add: r(5) i sendRegistrationOTP_effect(5))
  show "simulated (snd (resendOTP e1 c1 s1)) = simulated (snd (resend_as_issue e1 c1 s1))"
    by (simp add: r(6) i sendRegistrationOTP_effect(6))
  show "map_sum id res_expiryTime (fst (resendOTP e1 c1 s1))
        = map_sum id res_expiryTime (fst (resend_as_issue e1 c1 s1))"
    by (simp add: r(1) i sendRegistrationOTP_effect(1))
qed

text \<open>The witness: resend on the new service, and on the service whose entry for
  \<open>a@x.com\<close> has two failed attempts.\<close>

theorem resendOTP_resets_in_place_witness:
  "otpStorage new_service ''a@x.com'' = None \<and>
   resendOTP (ds_at 5000 654321) ''a@x.com'' new_service
     = (Inl ''No pending registration found for this email.'', new_service) \<and>
   otpStorage ex_service2 ''a@x.com'' = Some 0 \<and> attempts_e (objects ex_service2 0) = 2 \<and>
   fst (resendOTP (ds_at 5000 654321) ''a@x.com'' ex_service2)
     = Inr \<lparr> message = ''New OTP sent successfully'', res_expiryTime = 605000 \<rparr> \<and>
   next_addr (snd (resendOTP (ds_at 5000 654321) ''a@x.com'' ex_service2)) = 1 \<and>
   lookup_entry (snd (resendOTP (ds_at 5000 654321) ''a@x.com'' ex_service2)) ''a@x.com''
     = Some \<lparr> otp_e = ''654321'', userData = ex_user, expiryTime = 605000, attempts_e = 0 \<rparr> \<and>
   lookup_entry (snd (resend_as_issue (ds_at 5000 654321) ''a@x.com'' ex_service2)) ''a@x.com''
     = Some \<lparr> otp_e = ''654321'', userData = ex_user, expiryTime = 605000, attempts_e = 0 \<rparr> \<and>
   delivered ex_service2 = [(''a@x.com'', ''100123'')] \<and>
   delivered (snd (resendOTP (ds_at 5000 654321) ''a@x.com'' ex_service2))
     = [(''a@x.com'', ''100123''), (''a@x.com'', ''654321'')] \<and>
   simulated (snd (resendOTP (ds_at 5000 654321) ''a@x.com'' ex_service2)) = [] \<and>
   simulated (snd (resendOTP ((ds_at 5000 654321)\<lparr>service_ok := False\<rparr>) ''a@x.com'' ex_service2))
     = [(''a@x.com'', ''654321'')]"
proof -
  have n: "otpStorage new_service ''a@x.com'' = None" by (simp add: new_service_def)
  note t = resendOTP_resets_in_place [where svc = new_service and em = "''a@x.com''"
      and env = "ds_at 5000 654321" and ?s1.0 = ex_service2 and ?c1.0 = "''a@x.com''" and a = 0
      and ?e1.0 = "ds_at 5000 654321"]
  have c1: "resendOTP (ds_at 5000 654321) ''a@x.com'' new_service
     = (Inl ''No pending registration found for this email.'', new_service)"
    using t n by blast
  have c2: "fst (resendOTP (ds_at 5000 654321) ''a@x.com'' ex_service2)
        = Inr \<lparr> message = ''New OTP sent successfully'', res_expiryTime = ds_now (ds_at 5000 654321) + 600000 \<rparr>"
    "otpStorage (snd (resendOTP (ds_at 5000 654321) ''a@x.com'' ex_service2)) = otpStorage ex_service2"
    "next_addr (snd (resendOTP (ds_at 5000 654321) ''a@x.com'' ex_service2)) = next_addr ex_service2"
    "objects (snd (resendOTP (ds_at 5000 654321) ''a@x.com'' ex_service2))
        = (objects ex_service2)(0 := (objects ex_service2 0)\<lparr>otp_e := generateOTP (ds_draw (ds_at 5000 654321)),
             expiryTime := ds_now (ds_at 5000 654321) + 600000, attempts_e := 0\<rparr>)"
    "lookup_entry (snd (resendOTP (ds_at 5000 654321) ''a@x.com'' ex_service2)) ''a@x.com''
       = lookup_entry (snd (resend_as_issue (ds_at 5000 654321) ''a@x.com'' ex_service2)) ''a@x.com''"
    using t ex_service2_facts(1) by blast+
  have l: "lookup_entry (snd (resendOTP (ds_at 5000 654321) ''a@x.com'' ex_service2)) ''a@x.com''
     = Some \<lparr> otp_e = ''654321'', userData = ex_user, expiryTime = 605000, attempts_e = 0 \<rparr>"
  proof -
    have g: "generateOTP (ds_draw (ds_at 5000 654321)) = ''654321''"
      "ds_now (ds_at 5000 654321) = 5000"
      by (simp_all add: ds_at_def generateOTP_genOtp genOtp_654321)
    show ?thesis by (simp add: lookup_entry_def c2(2,4) ex_service2_facts g)
  qed
  have g: "ds_now (ds_at 5000 654321) = 5000" "service_ok (ds_at 5000 654321)"
    "generateOTP (ds_draw (ds_at 5000 654321)) = ''654321''"
    "\<not> service_ok ((ds_at 5000 654321)\<lparr>service_ok := False\<rparr>)"
    "generateOTP (ds_draw ((ds_at 5000 654321)\<lparr>service_ok := False\<rparr>)) = ''654321''"
    by (simp_all add: ds_at_def generateOTP_genOtp genOtp_654321)
  have c3: "delivered (snd (resendOTP (ds_at 5000 654321) ''a@x.com'' ex_service2))
        = (if service_ok (ds_at 5000 654321)
           then delivered ex_service2 @ [(''a@x.com'', generateOTP (ds_draw (ds_at 5000 654321)))]
           else delivered ex_service2)"
    "simulated (snd (resendOTP (ds_at 5000 654321) ''a@x.com'' ex_service2))
        = (if service_ok (ds_at 5000 654321) then simulated ex_service2
           else simulated ex_service2 @ [(''a@x.com'', generateOTP (ds_draw (ds_at 5000 654321)))])"
    using t ex_service2_facts(1) by blast+
  note t' = resendOTP_resets_in_place [where svc = new_service and em = "''a@x.com''"
      and env = "ds_at 5000 654321" and ?s1.0 = ex_service2 and ?c1.0 = "''a@x.com''" and a = 0
      and ?e1.0 = "(ds_at 5000 654321)\<lparr>service_ok := False\<rparr>"]
  have c4: "simulated (snd (resendOTP ((ds_at 5000 654321)\<lparr>service_ok := False\<rparr>) ''a@x.com'' ex_service2))
        = (if service_ok ((ds_at 5000 654321)\<lparr>service_ok := False\<rparr>) then simulated ex_service2
           else simulated ex_service2
             @ [(''a@x.com'', generateOTP (ds_draw ((ds_at 5000 654321)\<lparr>service_ok := False\<rparr>)))])"
    using t' ex_service2_facts(1) by blast
  have d: "delivered (snd (resendOTP (ds_at 5000 654321) ''a@x.com'' ex_service2))
       = [(''a@x.com'', ''100123''), (''a@x.com'', ''654321'')]"
    "simulated (snd (resendOTP (ds_at 5000 654321) ''a@x.com'' ex_service2)) = []"
    "simulated (snd (resendOTP ((ds_at 5000 654321)\<lparr>service_ok := False\<rparr>) ''a@x.com'' ex_service2))
       = [(''a@x.com'', ''654321'')]"
    by (simp_all only: c3 c4 g ex_service2_sent if_True if_False append.simps)
  show ?thesis
    using n c1 c2(1,3,5) l ex_service2_facts ex_service2_sent(1) d by (simp add: g(1))
qed

text \<open>C7 as stated fails: on the service whose entry for \<open>a@x.com\<close> has two failed
  attempts, \<open>resendOTP\<close> leaves the map pointing at the same entry, allocates nothing
  and sets that entry's attempts to 0, whereas issuing again allocates a second
  entry and leaves the first with its two attempts.\<close>

theorem resend_fresh_record_counterexample:
  "otpStorage ex_service2 ''a@x.com'' = Some 0 \<and> attempts_e (objects ex_service2 0) = 2 \<and>
   otpStorage (snd (resendOTP (ds_at 5000 654321) ''a@x.com'' ex_service2)) ''a@x.com'' = Some 0 \<and>
   next_addr (snd (resendOTP (ds_at 5000 654321) ''a@x.com'' ex_service2)) = next_addr ex_service2 \<and>
   attempts_e (objects (snd (resendOTP (ds_at 5000 654321) ''a@x.com'' ex_service2)) 0) = 0 \<and>
   otpStorage (snd (resend_as_issue (ds_at 5000 654321) ''a@x.com'' ex_service2)) ''a@x.com'' = Some 1 \<and>
   next_addr (snd (resend_as_issue (ds_at 5000 654321) ''a@x.com'' ex_service2))
     = Suc (next_addr ex_service2) \<and>
   attempts_e (objects (snd (resend_as_issue (ds_at 5000 654321) ''a@x.com'' ex_service2)) 0) = 2 \<and>
   resendOTP (ds_at 5000 654321) ''a@x.com'' ex_service2
     \<noteq> resend_as_issue (ds_at 5000 654321) ''a@x.com'' ex_service2"
proof -
  note r = resendOTP_some [OF ex_service2_facts(1), of "ds_at 5000 654321"]
  note i = resend_as_issue_some [OF ex_service2_facts(1), of "ds_at 5000 654321"]
  have a: "next_addr (snd (resendOTP (ds_at 5000 654321) ''a@x.com'' ex_service2)) = 1"
    by (simp add: r(3) ex_service2_facts)
  have b: "next_addr (snd (resend_as_issue (ds_at 5000 654321) ''a@x.com'' ex_service2)) = 2"
    by (simp add: i sendRegistrationOTP_effect(3) ex_service2_facts)
  have ne: "resendOTP (ds_at 5000 654321) ''a@x.com'' ex_service2
     \<noteq> resend_as_issue (ds_at 5000 654321) ''a@x.com'' ex_service2"
  proof
    assume "resendOTP (ds_at 5000 654321) ''a@x.com'' ex_service2
      = resend_as_issue (ds_at 5000 654321) ''a@x.com'' ex_service2"
    then have "next_addr (snd (resendOTP (ds_at 5000 654321) ''a@x.com'' ex_service2))
      = next_addr (snd (resend_as_issue (ds_at 5000 654321) ''a@x.com'' ex_service2))" by simp
    with a b show False by simp
  qed
  show ?thesis
    using ne a b
    by (simp add: r(2,4) i sendRegistrationOTP_effect(2,4) ex_service2_facts)
qed

section \<open>C8: the countdown timers of the page\<close>














text \<open>The bound rests on the service and not on the page's \<open>resendOTP\<close>, which calls
  \<open>startOTPTimer\<close> without \<open>clearOTPTimer\<close> and whose \<open>finally\<close> block enables the resend
  button again. With a service that holds an entry for \<open>a@x.com\<close>, as
  \<open>sendRegistrationOTP\<close> would leave it, two resends in a row start timers 2 and 3 and
  leave both active. The page never calls \<open>sendRegistrationOTP\<close>, so it does not reach
  this configuration.\<close>

lemma page_step_resend_ok:
  assumes "currentStep s = 2" and "\<not> resend_disabled s" and "otpStorage svc em = Some a"
  shows "page_step em (ClickResend env) (s, svc)
           = Some (page_resendOTP (Some (ds_now env + 600000)) s, snd (resendOTP env em svc))"
proof -
  obtain x svc1 where r: "resendOTP env em svc = (x, svc1)" by (cases "resendOTP env em svc")
  with resendOTP_some(1) [OF assms(3), of env]
  have x: "x = Inr \<lparr> message = ''New OTP sent successfully'', res_expiryTime = ds_now env + 600000 \<rparr>"
    by simp
  show ?thesis using assms(1,2) by (simp add: r x)
qed

lemma trace1:
  "page_run ''a@x.com'' [SubmitRegistration 1000 (Some 300), Fire 1 301000] (new_page True, ex_service)
     = Some (\<lparr> currentStep = 2, otpTimerInterval = None, otpExpiryTime = Some 301000,
               resend_disabled = False, otpTimer_shown = (0, 0), intervals = [], next_handle = 2 \<rparr>,
             ex_service)"
  by (simp add: new_page_def handleRegistration_def startOTPTimer_def timer_callback_def
      clearOTPTimer_def enableResendButton_def Let_def)

lemma trace2:
  "page_run ''a@x.com'' [ClickResend (ds_at 302000 654321), ClickResend (ds_at 303000 654321)]
     (\<lparr> currentStep = 2, otpTimerInterval = None, otpExpiryTime = Some 301000,
        resend_disabled = False, otpTimer_shown = (0, 0), intervals = [], next_handle = 2 \<rparr>,
      ex_service)
   = Some (\<lparr> currentStep = 2, otpTimerInterval = Some 3, otpExpiryTime = Some 903000,
             resend_disabled = False, otpTimer_shown = (0, 0), intervals = [2, 3], next_handle = 4 \<rparr>,
           snd (resendOTP (ds_at 303000 654321) ''a@x.com''
                  (snd (resendOTP (ds_at 302000 654321) ''a@x.com'' ex_service))))"
proof -
  let ?s0 = "\<lparr> currentStep = 2, otpTimerInterval = None, otpExpiryTime = Some 301000,
        resend_disabled = False, otpTimer_shown = (0, 0), intervals = [], next_handle = 2 \<rparr>"
  let ?svc1 = "snd (resendOTP (ds_at 302000 654321) ''a@x.com'' ex_service)"
  have o1: "otpStorage ?svc1 ''a@x.com'' = Some 0"
    by (simp add: resendOTP_some(2) [OF ex_service_facts(1)] ex_service_facts(1))
  have n: "ds_now (ds_at 302000 654321) = 302000" "ds_now (ds_at 303000 654321) = 303000"
    by (simp_all add: ds_at_def)
  have s1: "page_step ''a@x.com'' (ClickResend (ds_at 302000 654321)) (?s0, ex_service)
      = Some (page_resendOTP (Some 902000) ?s0, ?svc1)"
    using page_step_resend_ok [OF _ _ ex_service_facts(1), of ?s0 "ds_at 302000 654321"]
    by (simp add: n)
  have p1: "page_resendOTP (Some 902000) ?s0
      = \<lparr> currentStep = 2, otpTimerInterval = Some 2, otpExpiryTime = Some 902000,
          resend_disabled = False, otpTimer_shown = (0, 0), intervals = [2], next_handle = 3 \<rparr>"
    by (simp add: page_resendOTP_def startOTPTimer_def Let_def)
  let ?s1 = "\<lparr> currentStep = 2, otpTimerInterval = Some 2, otpExpiryTime = Some 902000,
          resend_disabled = False, otpTimer_shown = (0, 0), intervals = [2], next_handle = 3 \<rparr>"
  have s2: "page_step ''a@x.com'' (ClickResend (ds_at 303000 654321)) (?s1, ?svc1)
      = Some (page_resendOTP (Some 903000) ?s1,
              snd (resendOTP (ds_at 303000 654321) ''a@x.com'' ?svc1))"
    using page_step_resend_ok [OF _ _ o1, of ?s1 "ds_at 303000 654321"]
    by (simp add: n)
  have p2: "page_resendOTP (Some 903000) ?s1
      = \<lparr> currentStep = 2, otpTimerInterval = Some 3, otpExpiryTime = Some 903000,
          resend_disabled = False, otpTimer_shown = (0, 0), intervals = [2, 3], next_handle = 4 \<rparr>"
    by (simp add: page_resendOTP_def startOTPTimer_def Let_def)
  show ?thesis
    by (simp only: page_run.simps s1 p1 s2 p2 option.case)
qed

lemma page_run_append:
  "page_run em (xs @ ys) cfg = (case page_run em xs cfg of None \<Rightarrow> None | Some c \<Rightarrow> page_run em ys c)"
  by (induction xs arbitrary: cfg) (auto split: option.splits)

lemma trace3:
  "page_run ''a@x.com'' [Fire 2 903000, Fire 2 904000]
     (\<lparr> currentStep = 2, otpTimerInterval = Some 3, otpExpiryTime = Some 903000,
        resend_disabled = False, otpTimer_shown = (0, 0), intervals = [2, 3], next_handle = 4 \<rparr>, svc)
   = Some (\<lparr> currentStep = 2, otpTimerInterval = None, otpExpiryTime = Some 903000,
             resend_disabled = False, otpTimer_shown = (0, 0), intervals = [2], next_handle = 4 \<rparr>, svc)"
  by (simp add: timer_callback_def clearOTPTimer_def enableResendButton_def Let_def)

lemma seeded_service_two_timers:
  "timers_of (page_run ''a@x.com''
      [SubmitRegistration 1000 (Some 300), Fire 1 301000,
       ClickResend (ds_at 302000 654321), ClickResend (ds_at 303000 654321)]
      (new_page True, ex_service))
     = Some ([2, 3], Some 3)
   \<and> timers_of (page_run ''a@x.com''
      [SubmitRegistration 1000 (Some 300), Fire 1 301000,
       ClickResend (ds_at 302000 654321), ClickResend (ds_at 303000 654321),
       Fire 2 903000, Fire 2 904000]
      (new_page True, ex_service))
     = Some ([2], None)"
proof -
  have a: "[SubmitRegistration 1000 (Some 300), Fire 1 301000,
       ClickResend (ds_at 302000 654321), ClickResend (ds_at 303000 654321)]
     = [SubmitRegistration 1000 (Some 300), Fire 1 301000]
       @ [ClickResend (ds_at 302000 654321), ClickResend (ds_at 303000 654321)]" by simp
  have b: "[SubmitRegistration 1000 (Some 300), Fire 1 301000,
       ClickResend (ds_at 302000 654321), ClickResend (ds_at 303000 654321),
       Fire 2 903000, Fire 2 904000]
     = ([SubmitRegistration 1000 (Some 300), Fire 1 301000]
       @ [ClickResend (ds_at 302000 654321), ClickResend (ds_at 303000 654321)])
       @ [Fire 2 903000, Fire 2 904000]" by simp
  show ?thesis
    by (simp only: a b page_run_append trace1 trace2 trace3 option.case timers_of_def)
       simp
qed

end
